theory Spec2Isabelle
  imports Main "HOL-Library.Multiset"
begin

section \<open>The tree fetcher of githubauth.py\<close>

text \<open>
  The module has one function, \<^verbatim>\<open>get_github_code_files\<close>: a breadth-first walk over the
  contents API of a repository that collects the text of every file into a dictionary.
  Everything outside the function body is a parameter of the model: the HTTP session
  (\<^verbatim>\<open>requests.Session.get\<close>) and the two decoders of the standard library
  (\<^verbatim>\<open>base64.b64decode\<close>, \<^verbatim>\<open>bytes.decode('utf-8')\<close>). Each of them either returns
  a value or raises, so each is a function into \<open>exn + 'a\<close>.
  The \<^verbatim>\<open>print\<close> calls write diagnostics to standard output only; they influence neither
  the control flow nor the returned dictionary and are left out.
\<close>

subsection \<open>JSON values, entries and responses\<close>

text \<open>
  The values the contents API stores under the keys the function reads are strings or
  \<^verbatim>\<open>null\<close>. An entry is a Python dict from key to value; a key that is absent is
  \<open>None\<close> of the map.
\<close>

datatype jval = JNull | JStr string

type_synonym item = "string \<rightharpoonup> jval"

text \<open>What \<^verbatim>\<open>response.json()\<close> yields: it raises on a body that is not JSON, and
  otherwise gives a single object or a list of objects, the two shapes of the contents
  API. A body of another JSON shape is outside the model.\<close>

datatype body = Malformed | Object item | Array "item list"

record response =
  status_code :: nat
  text_str :: string
  json :: body

text \<open>The exception classes that the function's handlers tell apart. \<^verbatim>\<open>HTTPError\<close> (with
  the status code of its response) is a subclass of \<^verbatim>\<open>RequestException\<close>;
  \<^verbatim>\<open>binascii.Error\<close> and \<^verbatim>\<open>UnicodeDecodeError\<close> are subclasses of \<^verbatim>\<open>ValueError\<close>;
  \<^verbatim>\<open>KeyError\<close> is a subclass of neither.\<close>

datatype exn =
    HTTPError nat
  | RequestException
  | ValueError
  | Binascii_Error
  | UnicodeDecodeError
  | KeyError string

fun isinstance_HTTPError :: "exn \<Rightarrow> bool" where
  "isinstance_HTTPError (HTTPError n) = True"
| "isinstance_HTTPError e = False"

fun isinstance_RequestException :: "exn \<Rightarrow> bool" where
  "isinstance_RequestException (HTTPError n) = True"
| "isinstance_RequestException RequestException = True"
| "isinstance_RequestException e = False"

fun isinstance_ValueError :: "exn \<Rightarrow> bool" where
  "isinstance_ValueError ValueError = True"
| "isinstance_ValueError Binascii_Error = True"
| "isinstance_ValueError UnicodeDecodeError = True"
| "isinstance_ValueError e = False"

record env =
  session_get :: "string \<Rightarrow> (string \<times> string) list \<Rightarrow> exn + response"
  b64decode :: "string \<Rightarrow> exn + string"
  utf8_decode :: "string \<Rightarrow> exn + string"

subsection \<open>Python primitives\<close>

text \<open>Truth value of a JSON value in a condition: \<^verbatim>\<open>None\<close> and the empty string are false.\<close>

fun truthy :: "jval \<Rightarrow> bool" where
  "truthy JNull = False"
| "truthy (JStr s) = (s \<noteq> [])"

text \<open>\<^verbatim>\<open>str(v)\<close>, as an f-string formats a value.\<close>

fun py_str :: "jval \<Rightarrow> string" where
  "py_str JNull = ''None''"
| "py_str (JStr s) = s"

text \<open>\<^verbatim>\<open>k in item\<close> and \<^verbatim>\<open>item[k]\<close>; the subscript raises \<^verbatim>\<open>KeyError\<close> on an absent key.\<close>

definition contains :: "item \<Rightarrow> string \<Rightarrow> bool" where
  "contains i k = (i k \<noteq> None)"

definition getitem :: "item \<Rightarrow> string \<Rightarrow> exn + jval" where
  "getitem i k = (case i k of None \<Rightarrow> Inl (KeyError k) | Some v \<Rightarrow> Inr v)"

text \<open>\<^verbatim>\<open>path.strip('/')\<close>: leading and trailing slashes are removed.\<close>

definition strip_slash :: "string \<Rightarrow> string" where
  "strip_slash s = rev (dropWhile (\<lambda>c. c = CHR ''/'') (rev (dropWhile (\<lambda>c. c = CHR ''/'') s)))"

text \<open>\<^verbatim>\<open>response.raise_for_status()\<close>: an \<^verbatim>\<open>HTTPError\<close> for the statuses 4xx and 5xx.\<close>

definition raise_for_status :: "response \<Rightarrow> exn + unit" where
  "raise_for_status r =
     (if 400 \<le> status_code r \<and> status_code r < 600 then Inl (HTTPError (status_code r))
      else Inr ())"

subsection \<open>The function body\<close>

definition base_url :: string where
  "base_url = ''https://api.github.com''"

definition headers :: "string \<Rightarrow> (string \<times> string) list" where
  "headers pat = [(''Authorization'', ''token '' @ pat),
                  (''Accept'', ''application/vnd.github.v3+json'')]"

definition contents_url :: "string \<Rightarrow> string \<Rightarrow> string \<Rightarrow> jval \<Rightarrow> string" where
  "contents_url owner repo branch current_path =
     base_url @ ''/repos/'' @ owner @ ''/'' @ repo @ ''/contents/'' @ py_str current_path
       @ ''?ref='' @ branch"

record state =
  queue :: "jval list"
  code_files :: "jval \<rightharpoonup> string"

text \<open>Lines 44 to 52: the listing request for one path, the status check, the JSON body,
  and the single object wrapped into a list.\<close>

definition list_dir :: "env \<Rightarrow> string \<Rightarrow> string \<Rightarrow> string \<Rightarrow> string \<Rightarrow> jval \<Rightarrow> exn + item list" where
  "list_dir env owner repo branch pat current_path =
     (case session_get env (contents_url owner repo branch current_path) (headers pat) of
        Inl e \<Rightarrow> Inl e
      | Inr r \<Rightarrow>
          (case raise_for_status r of
             Inl e \<Rightarrow> Inl e
           | Inr u \<Rightarrow>
               (case json r of
                  Malformed \<Rightarrow> Inl ValueError
                | Object d \<Rightarrow> Inr [d]
                | Array xs \<Rightarrow> Inr xs)))"

text \<open>Lines 62 to 64, the body of the inner \<^verbatim>\<open>try\<close> of the download branch.\<close>

definition fetch_download :: "env \<Rightarrow> string \<Rightarrow> string \<Rightarrow> exn + string" where
  "fetch_download env pat url =
     (case session_get env url [(''Authorization'', ''token '' @ pat)] of
        Inl e \<Rightarrow> Inl e
      | Inr r \<Rightarrow>
          (case raise_for_status r of
             Inl e \<Rightarrow> Inl e
           | Inr u \<Rightarrow> Inr (text_str r)))"

text \<open>Line 70: \<^verbatim>\<open>base64.b64decode(item['content']).decode('utf-8')\<close>.\<close>

definition decode_content :: "env \<Rightarrow> string \<Rightarrow> exn + string" where
  "decode_content env c =
     (case b64decode env c of
        Inl e \<Rightarrow> Inl e
      | Inr bytes \<Rightarrow> utf8_decode env bytes)"

text \<open>
  Lines 59 to 75, the \<^verbatim>\<open>if\<close>/\<^verbatim>\<open>elif\<close>/\<^verbatim>\<open>else\<close> chain of one file entry. The result is
  \<open>Inr (Some c)\<close> where the chain stores \<open>c\<close> under the file's path, \<open>Inr None\<close> where it
  only prints a warning, and \<open>Inl e\<close> where an exception leaves the chain. The handler of
  the download branch catches \<^verbatim>\<open>RequestException\<close>, the handler of the base64 branch
  catches \<^verbatim>\<open>binascii.Error\<close> and \<^verbatim>\<open>UnicodeDecodeError\<close>; the condition of the \<^verbatim>\<open>elif\<close>
  is evaluated outside both, left to right.
\<close>

definition file_content :: "env \<Rightarrow> string \<Rightarrow> item \<Rightarrow> exn + string option" where
  "file_content env pat i =
     (if contains i ''download_url'' \<and> truthy (the (i ''download_url'')) then
        (case fetch_download env pat (py_str (the (i ''download_url''))) of
           Inr txt \<Rightarrow> Inr (Some txt)
         | Inl e \<Rightarrow> if isinstance_RequestException e then Inr None else Inl e)
      else if contains i ''content'' \<and> truthy (the (i ''content'')) then
        (case getitem i ''encoding'' of
           Inl e \<Rightarrow> Inl e
         | Inr enc \<Rightarrow>
             if enc = JStr ''base64'' then
               (case decode_content env (py_str (the (i ''content''))) of
                  Inr decoded_content \<Rightarrow> Inr (Some decoded_content)
                | Inl e \<Rightarrow> if e = Binascii_Error \<or> e = UnicodeDecodeError then Inr None else Inl e)
             else Inr None)
      else Inr None)"

text \<open>Lines 55 to 79, the body of the \<^verbatim>\<open>for\<close> loop for one entry.\<close>

definition process_item :: "env \<Rightarrow> string \<Rightarrow> state \<Rightarrow> item \<Rightarrow> exn + state" where
  "process_item env pat st i =
     (case getitem i ''type'' of
        Inl e \<Rightarrow> Inl e
      | Inr t \<Rightarrow>
          if t = JStr ''file'' then
            (case getitem i ''path'' of
               Inl e \<Rightarrow> Inl e
             | Inr file_path \<Rightarrow>
                 (case file_content env pat i of
                    Inl e \<Rightarrow> Inl e
                  | Inr None \<Rightarrow> Inr st
                  | Inr (Some c) \<Rightarrow> Inr (st\<lparr>code_files := (code_files st)(file_path \<mapsto> c)\<rparr>)))
          else if t = JStr ''dir'' then
            (case getitem i ''path'' of
               Inl e \<Rightarrow> Inl e
             | Inr p \<Rightarrow> Inr (st\<lparr>queue := queue st @ [p]\<rparr>))
          else Inr st)"

text \<open>The \<^verbatim>\<open>for\<close> loop: it stops at the first exception.\<close>

fun process_items :: "env \<Rightarrow> string \<Rightarrow> state \<Rightarrow> item list \<Rightarrow> exn + state" where
  "process_items env pat st [] = Inr st"
| "process_items env pat st (i # items) =
     (case process_item env pat st i of
        Inl e \<Rightarrow> Inl e
      | Inr st' \<Rightarrow> process_items env pat st' items)"

text \<open>The body of the outer \<^verbatim>\<open>try\<close> for the path just taken from the queue.\<close>

definition iteration :: "env \<Rightarrow> string \<Rightarrow> string \<Rightarrow> string \<Rightarrow> string \<Rightarrow> jval \<Rightarrow> state \<Rightarrow> exn + state" where
  "iteration env owner repo branch pat current_path st =
     (case list_dir env owner repo branch pat current_path of
        Inl e \<Rightarrow> Inl e
      | Inr items \<Rightarrow> process_items env pat st items)"

text \<open>How a call ends: it returns a dictionary or an exception leaves it.\<close>

datatype outcome = Returns "jval \<rightharpoonup> string" | Raises exn

text \<open>Lines 81 to 94: the three \<^verbatim>\<open>except\<close> clauses, tried in order. Each returns the empty
  dictionary; an exception that none of them matches propagates to the caller.\<close>

definition handlers :: "exn \<Rightarrow> outcome" where
  "handlers e =
     (if isinstance_HTTPError e then Returns Map.empty
      else if isinstance_RequestException e then Returns Map.empty
      else if isinstance_ValueError e then Returns Map.empty
      else Raises e)"

text \<open>The \<^verbatim>\<open>while queue\<close> loop. Nothing bounds the number of rounds (a listing may name
  its own path as a subdirectory), so a run that never ends is the value \<open>None\<close>.\<close>

partial_function (option) loop ::
  "env \<Rightarrow> string \<Rightarrow> string \<Rightarrow> string \<Rightarrow> string \<Rightarrow> state \<Rightarrow> outcome option" where
  "loop env owner repo branch pat st =
     (case queue st of
        [] \<Rightarrow> Some (Returns (code_files st))
      | current_path # rest \<Rightarrow>
          (case iteration env owner repo branch pat current_path (st\<lparr>queue := rest\<rparr>) of
             Inl e \<Rightarrow> Some (handlers e)
           | Inr st' \<Rightarrow> loop env owner repo branch pat st'))"

text \<open>Lines 29 and 32: the empty dictionary and the queue that holds the stripped starting
  path. The Python defaults of the parameters (\<^verbatim>\<open>branch='main'\<close>, \<^verbatim>\<open>path=''\<close>,
  \<^verbatim>\<open>pat=''\<close>) are values a caller passes here.\<close>

definition initial :: "string \<Rightarrow> state" where
  "initial path = \<lparr>queue = [JStr (strip_slash path)], code_files = Map.empty\<rparr>"

definition get_github_code_files ::
  "env \<Rightarrow> string \<Rightarrow> string \<Rightarrow> string \<Rightarrow> string \<Rightarrow> string \<Rightarrow> outcome option" where
  "get_github_code_files env owner repo branch path pat =
     loop env owner repo branch pat (initial path)"

section \<open>The repository as the listing requests show it\<close>

text \<open>
  The properties below speak about the tree that the listing responses describe. \<open>L\<close> is
  the listing function of a run, \<open>list_dir env owner repo branch pat\<close>; a path is reached
  when it is the starting path or a directory entry of the listing of a reached path.
\<close>

definition is_file :: "item \<Rightarrow> bool" where
  "is_file i = (i ''type'' = Some (JStr ''file''))"

definition is_dir :: "item \<Rightarrow> bool" where
  "is_dir i = (i ''type'' = Some (JStr ''dir''))"

definition dir_paths :: "item list \<Rightarrow> jval list" where
  "dir_paths items = map (\<lambda>i. the (i ''path'')) (filter is_dir items)"

definition children :: "(jval \<Rightarrow> exn + item list) \<Rightarrow> jval \<Rightarrow> jval set" where
  "children L p =
     {d. \<exists>items. L p = Inr items \<and> (\<exists>i \<in> set items. is_dir i \<and> i ''path'' = Some d)}"

inductive_set reach :: "(jval \<Rightarrow> exn + item list) \<Rightarrow> jval set \<Rightarrow> jval set"
  for L :: "jval \<Rightarrow> exn + item list" and Q :: "jval set" where
  start: "q \<in> Q \<Longrightarrow> q \<in> reach L Q"
| child: "p \<in> reach L Q \<Longrightarrow> L p = Inr items \<Longrightarrow> i \<in> set items \<Longrightarrow> is_dir i \<Longrightarrow>
          i ''path'' = Some d \<Longrightarrow> d \<in> reach L Q"

text \<open>The subdirectory relation below the paths \<open>Q\<close>: \<open>(d, p)\<close> when the listing of the
  reached path \<open>p\<close> has the directory entry \<open>d\<close>.\<close>

definition child_rel :: "(jval \<Rightarrow> exn + item list) \<Rightarrow> jval set \<Rightarrow> (jval \<times> jval) set" where
  "child_rel L Q = {(d, p). p \<in> reach L Q \<and> d \<in> children L p}"

text \<open>The file entries that the listings of the reached paths report.\<close>

definition file_entries :: "(jval \<Rightarrow> exn + item list) \<Rightarrow> jval set \<Rightarrow> item set" where
  "file_entries L Q = {i. \<exists>p \<in> reach L Q. \<exists>items. L p = Inr items \<and> i \<in> set items \<and> is_file i}"

definition file_paths :: "(jval \<Rightarrow> exn + item list) \<Rightarrow> jval set \<Rightarrow> jval set" where
  "file_paths L Q = {k. \<exists>i \<in> file_entries L Q. i ''path'' = Some k}"

text \<open>The pairs of path and text that the entries of one listing store, and those of all
  listings below \<open>Q\<close>.\<close>

definition stored :: "env \<Rightarrow> string \<Rightarrow> item list \<Rightarrow> (jval \<times> string) set" where
  "stored env pat items =
     {(k, c). \<exists>i \<in> set items. is_file i \<and> i ''path'' = Some k \<and>
        file_content env pat i = Inr (Some c)}"

definition files_from ::
  "env \<Rightarrow> string \<Rightarrow> (jval \<Rightarrow> exn + item list) \<Rightarrow> jval set \<Rightarrow> (jval \<times> string) set" where
  "files_from env pat L Q =
     {kc. \<exists>p \<in> reach L Q. \<exists>items. L p = Inr items \<and> kc \<in> stored env pat items}"

text \<open>An entry that the loop body handles without an exception: it has a type, a file or
  directory entry has a path, and the content chain of a file entry raises nothing.\<close>

definition entry_ok :: "env \<Rightarrow> string \<Rightarrow> item \<Rightarrow> bool" where
  "entry_ok env pat i =
     (i ''type'' \<noteq> None \<and> (is_file i \<or> is_dir i \<longrightarrow> i ''path'' \<noteq> None) \<and>
      (is_file i \<longrightarrow> \<not> isl (file_content env pat i)))"

subsection \<open>Runs, step by step\<close>

text \<open>
  The configurations a call passes through: the state together with the entries of the
  current listing that the \<^verbatim>\<open>for\<close> loop has still to visit. \<open>enter\<close> is the state before
  the first round, \<open>popleft\<close> takes a path from the queue and receives its listing, and
  \<open>entry\<close> is one pass of the \<^verbatim>\<open>for\<close> body.
\<close>

inductive_set configs ::
  "env \<Rightarrow> string \<Rightarrow> string \<Rightarrow> string \<Rightarrow> string \<Rightarrow> string \<Rightarrow> (state \<times> item list) set"
  for env :: env and owner :: string and repo :: string and branch :: string
    and path :: string and pat :: string where
  enter: "(initial path, []) \<in> configs env owner repo branch path pat"
| popleft: "(st, []) \<in> configs env owner repo branch path pat \<Longrightarrow> queue st = p # rest \<Longrightarrow>
     list_dir env owner repo branch pat p = Inr items \<Longrightarrow>
     (st\<lparr>queue := rest\<rparr>, items) \<in> configs env owner repo branch path pat"
| entry: "(st, i # todo) \<in> configs env owner repo branch path pat \<Longrightarrow>
     process_item env pat st i = Inr st' \<Longrightarrow>
     (st', todo) \<in> configs env owner repo branch path pat"

text \<open>What the call still does from a configuration.\<close>

definition continue ::
  "env \<Rightarrow> string \<Rightarrow> string \<Rightarrow> string \<Rightarrow> string \<Rightarrow> state \<Rightarrow> item list \<Rightarrow> outcome option" where
  "continue env owner repo branch pat st todo =
     (case process_items env pat st todo of
        Inl e \<Rightarrow> Some (handlers e)
      | Inr st' \<Rightarrow> loop env owner repo branch pat st')"

text \<open>A path that some listing of the run reports with the given type.\<close>

definition reported :: "(jval \<Rightarrow> exn + item list) \<Rightarrow> jval set \<Rightarrow> string \<Rightarrow> jval \<Rightarrow> bool" where
  "reported L Q t k =
     (\<exists>p \<in> reach L Q. \<exists>items. L p = Inr items \<and>
        (\<exists>i \<in> set items. i ''type'' = Some (JStr t) \<and> i ''path'' = Some k))"

text \<open>A listing request that fails: the session raises, the status is 4xx or 5xx, or the
  body is not JSON.\<close>

definition listing_fails :: "env \<Rightarrow> string \<Rightarrow> string \<Rightarrow> string \<Rightarrow> string \<Rightarrow> jval \<Rightarrow> bool" where
  "listing_fails env owner repo branch pat p =
     (case session_get env (contents_url owner repo branch p) (headers pat) of
        Inl e \<Rightarrow> isinstance_RequestException e
      | Inr r \<Rightarrow> (400 \<le> status_code r \<and> status_code r < 600) \<or> json r = Malformed)"

text \<open>A download request that fails.\<close>

definition download_fails :: "env \<Rightarrow> string \<Rightarrow> string \<Rightarrow> bool" where
  "download_fails env pat url =
     (case session_get env url [(''Authorization'', ''token '' @ pat)] of
        Inl e \<Rightarrow> isinstance_RequestException e
      | Inr r \<Rightarrow> 400 \<le> status_code r \<and> status_code r < 600)"

definition has_download_url :: "item \<Rightarrow> bool" where
  "has_download_url i = (contains i ''download_url'' \<and> truthy (the (i ''download_url'')))"

text \<open>Two environments that answer alike every request that a run from \<open>path\<close> in the
  first one issues, with the same decoders.\<close>

definition same_answers ::
  "env \<Rightarrow> env \<Rightarrow> string \<Rightarrow> string \<Rightarrow> string \<Rightarrow> string \<Rightarrow> string \<Rightarrow> bool" where
  "same_answers env env' owner repo branch path pat =
     (b64decode env' = b64decode env \<and> utf8_decode env' = utf8_decode env \<and>
      (\<forall>p \<in> reach (list_dir env owner repo branch pat) {JStr (strip_slash path)}.
         session_get env' (contents_url owner repo branch p) (headers pat) =
         session_get env (contents_url owner repo branch p) (headers pat)) \<and>
      (\<forall>i \<in> file_entries (list_dir env owner repo branch pat) {JStr (strip_slash path)}.
         has_download_url i \<longrightarrow>
         session_get env' (py_str (the (i ''download_url''))) [(''Authorization'', ''token '' @ pat)] =
         session_get env (py_str (the (i ''download_url''))) [(''Authorization'', ''token '' @ pat)]))"

subsection \<open>Predicates for the induction over a run\<close>

text \<open>Every value of a returned dictionary was in the state already or comes from a file
  entry below the queued paths.\<close>

definition vals_ok ::
  "env \<Rightarrow> string \<Rightarrow> string \<Rightarrow> string \<Rightarrow> string \<Rightarrow> state \<Rightarrow> outcome \<Rightarrow> bool" where
  "vals_ok env owner repo branch pat st y =
     (\<forall>m k c. y = Returns m \<longrightarrow> m k = Some c \<longrightarrow>
       code_files st k = Some c \<or>
       (k, c) \<in> files_from env pat (list_dir env owner repo branch pat) (set (queue st)))"

text \<open>The result \<open>y\<close> of a run from \<open>st\<close> carries over to every environment whose rounds
  agree with those of \<open>env\<close> on a set of paths that holds the queue and is closed under
  the rounds.\<close>

definition transfers ::
  "env \<Rightarrow> string \<Rightarrow> string \<Rightarrow> string \<Rightarrow> string \<Rightarrow> state \<Rightarrow> outcome \<Rightarrow> bool" where
  "transfers env owner repo branch pat st y =
     (\<forall>env' R.
        (\<forall>p \<in> R. \<forall>s. iteration env' owner repo branch pat p s =
                       iteration env owner repo branch pat p s) \<and>
        (\<forall>p \<in> R. \<forall>s s'. iteration env owner repo branch pat p s = Inr s' \<and>
                          set (queue s) \<subseteq> R \<longrightarrow> set (queue s') \<subseteq> R) \<and>
        set (queue st) \<subseteq> R \<longrightarrow>
        loop env' owner repo branch pat st = Some y)"

section \<open>Example repositories\<close>

text \<open>
  A small server for concrete runs: it answers from a table of URLs, with 404 for any
  other URL and 401 when the token of the request is not \<open>s3cret\<close>. Its base64 decoder
  knows the one encoded text that the examples contain.
\<close>

definition ok_json :: "body \<Rightarrow> response" where
  "ok_json b = \<lparr>status_code = 200, text_str = [], json = b\<rparr>"

definition ok_text :: "string \<Rightarrow> response" where
  "ok_text s = \<lparr>status_code = 200, text_str = s, json = Malformed\<rparr>"

definition no_body :: "nat \<Rightarrow> response" where
  "no_body n = \<lparr>status_code = n, text_str = [], json = Malformed\<rparr>"

definition serve :: "(string \<times> response) list \<Rightarrow> string \<Rightarrow> (string \<times> string) list \<Rightarrow> exn + response" where
  "serve table url hdrs =
     (if (''Authorization'', ''token s3cret'') \<in> set hdrs then
        (case map_of table url of Some r \<Rightarrow> Inr r | None \<Rightarrow> Inr (no_body 404))
      else Inr (no_body 401))"

definition fixture_b64decode :: "string \<Rightarrow> exn + string" where
  "fixture_b64decode s = (if s = ''aGVsbG8='' then Inr ''hello'' else Inl Binascii_Error)"

definition fixture_env :: "(string \<times> response) list \<Rightarrow> env" where
  "fixture_env table =
     \<lparr>session_get = serve table, b64decode = fixture_b64decode, utf8_decode = Inr\<rparr>"

text \<open>The entries of the example tree: \<open>a.txt\<close> with inline base64 content only, the
  directory \<open>sub\<close>, and \<open>sub/b.txt\<close> with a download URL only.\<close>

definition a_txt :: item where
  "a_txt = [''type'' \<mapsto> JStr ''file'', ''path'' \<mapsto> JStr ''a.txt'',
            ''content'' \<mapsto> JStr ''aGVsbG8='', ''encoding'' \<mapsto> JStr ''base64'']"

definition sub_dir :: item where
  "sub_dir = [''type'' \<mapsto> JStr ''dir'', ''path'' \<mapsto> JStr ''sub'']"

definition b_url :: string where
  "b_url = ''https://raw.example/sub/b.txt''"

definition b_txt :: item where
  "b_txt = [''type'' \<mapsto> JStr ''file'', ''path'' \<mapsto> JStr ''sub/b.txt'',
            ''download_url'' \<mapsto> JStr b_url]"

definition root_url :: string where
  "root_url = ''https://api.github.com/repos/octo/demo/contents/?ref=main''"

definition sub_url :: string where
  "sub_url = ''https://api.github.com/repos/octo/demo/contents/sub?ref=main''"

definition tree_table :: "(string \<times> response) list" where
  "tree_table = [(root_url, ok_json (Array [a_txt, sub_dir])),
                 (sub_url, ok_json (Array [b_txt])),
                 (b_url, ok_text ''world'')]"

text \<open>The starting path \<open>a.txt\<close> is a file: the listing answers with a single object.\<close>

definition a_url :: string where
  "a_url = ''https://api.github.com/repos/octo/demo/contents/a.txt?ref=main''"

definition single_table :: "(string \<times> response) list" where
  "single_table = [(a_url, ok_json (Object a_txt))]"

text \<open>The root lists \<open>a.txt\<close> and \<open>sub\<close>, but the listing of \<open>sub\<close> is not found.\<close>

definition broken_table :: "(string \<times> response) list" where
  "broken_table = [(root_url, ok_json (Array [a_txt, sub_dir]))]"

text \<open>The root listing answers with status 300 and a JSON list in its body.\<close>

definition multiple_choices :: response where
  "multiple_choices = \<lparr>status_code = 300, text_str = [], json = Array [a_txt]\<rparr>"

definition status300_table :: "(string \<times> response) list" where
  "status300_table = [(root_url, multiple_choices)]"

text \<open>A file entry with inline content that is no base64 text, and without the key
  \<open>encoding\<close> and without a download URL.\<close>

definition no_enc :: item where
  "no_enc = [''type'' \<mapsto> JStr ''file'', ''path'' \<mapsto> JStr ''c.bin'', ''content'' \<mapsto> JStr ''a'']"

definition no_enc_table :: "(string \<times> response) list" where
  "no_enc_table = [(root_url, ok_json (Array [a_txt, no_enc, sub_dir])),
                   (sub_url, ok_json (Array [b_txt])),
                   (b_url, ok_text ''world'')]"

definition no_enc_first_table :: "(string \<times> response) list" where
  "no_enc_first_table = [(root_url, ok_json (Array [no_enc, a_txt, sub_dir])),
                         (sub_url, ok_json (Array [b_txt])),
                         (b_url, ok_text ''world'')]"

text \<open>A file entry with a download URL that is not found and with valid inline content.\<close>

definition dead_url :: string where
  "dead_url = ''https://raw.example/d.txt''"

definition d_txt :: item where
  "d_txt = [''type'' \<mapsto> JStr ''file'', ''path'' \<mapsto> JStr ''d.txt'',
            ''download_url'' \<mapsto> JStr dead_url,
            ''content'' \<mapsto> JStr ''aGVsbG8='', ''encoding'' \<mapsto> JStr ''base64'']"

definition dead_table :: "(string \<times> response) list" where
  "dead_table = [(root_url, ok_json (Array [d_txt, a_txt]))]"

text \<open>The example tree with one more URL, which no run on the tree requests.\<close>

definition other_url :: string where
  "other_url = ''https://raw.example/unrelated''"

definition tree_table_more :: "(string \<times> response) list" where
  "tree_table_more = tree_table @ [(other_url, ok_text ''x'')]"

section \<open>Lemmas\<close>

subsection \<open>One entry, one listing\<close>

lemma process_item_ok:
  "entry_ok env pat i \<Longrightarrow> \<exists>st'. process_item env pat st i = Inr st'"
  by (auto simp: entry_ok_def process_item_def getitem_def is_file_def is_dir_def
      split: option.splits sum.splits)

lemma process_item_queue:
  "process_item env pat st i = Inr st' \<Longrightarrow> queue st' = queue st @ dir_paths [i]"
  by (auto simp: process_item_def getitem_def is_dir_def dir_paths_def
      split: option.splits sum.splits if_splits)

lemma process_item_files:
  "process_item env pat st i = Inr st' \<Longrightarrow>
     code_files st' =
       (if is_file i then
          (case file_content env pat i of
             Inr (Some c) \<Rightarrow> (code_files st)(the (i ''path'') \<mapsto> c)
           | _ \<Rightarrow> code_files st)
        else code_files st)"
  by (auto simp: process_item_def getitem_def is_file_def
      split: option.splits sum.splits if_splits)

lemma process_item_dir_path:
  "process_item env pat st i = Inr st' \<Longrightarrow> is_dir i \<Longrightarrow> i ''path'' \<noteq> None"
  by (auto simp: process_item_def getitem_def is_dir_def split: option.splits sum.splits if_splits)

lemma stored_Cons:
  "stored env pat (i # items) = stored env pat [i] \<union> stored env pat items"
  by (auto simp: stored_def)

lemma stored_Nil: "stored env pat [] = {}"
  by (simp add: stored_def)

lemma dir_paths_Cons: "dir_paths (i # items) = dir_paths [i] @ dir_paths items"
  by (simp add: dir_paths_def)

lemma process_item_dom:
  "process_item env pat st i = Inr st' \<Longrightarrow>
     dom (code_files st') = dom (code_files st) \<union> fst ` stored env pat [i]"
  apply (frule process_item_files)
  apply (auto simp: stored_def process_item_def getitem_def is_file_def image_iff
      split: option.splits sum.splits if_splits)
  done

lemma process_item_vals:
  "process_item env pat st i = Inr st' \<Longrightarrow> code_files st' k = Some c \<Longrightarrow>
     code_files st k = Some c \<or> (k, c) \<in> stored env pat [i]"
  apply (frule process_item_files)
  apply (auto simp: stored_def process_item_def getitem_def is_file_def image_iff
      split: option.splits sum.splits if_splits)
  done

lemma process_items_Cons_Inr:
  assumes "process_items env pat st (i # items) = Inr st'"
  shows "\<exists>st1. process_item env pat st i = Inr st1 \<and> process_items env pat st1 items = Inr st'"
  using assms by (cases "process_item env pat st i") auto

lemma process_items_queue:
  "process_items env pat st items = Inr st' \<Longrightarrow> queue st' = queue st @ dir_paths items"
proof (induction items arbitrary: st)
  case Nil
  then show ?case by (simp add: dir_paths_def)
next
  case (Cons i items)
  from process_items_Cons_Inr [OF Cons.prems] obtain st1
    where 1: "process_item env pat st i = Inr st1"
      and 2: "process_items env pat st1 items = Inr st'" by blast
  show ?case
    using Cons.IH [OF 2] process_item_queue [OF 1] dir_paths_Cons [of i items] by simp
qed

lemma process_items_dom:
  "process_items env pat st items = Inr st' \<Longrightarrow>
     dom (code_files st') = dom (code_files st) \<union> fst ` stored env pat items"
proof (induction items arbitrary: st)
  case Nil
  then show ?case by (simp add: stored_Nil)
next
  case (Cons i items)
  from process_items_Cons_Inr [OF Cons.prems] obtain st1
    where 1: "process_item env pat st i = Inr st1"
      and 2: "process_items env pat st1 items = Inr st'" by blast
  show ?case
    using Cons.IH [OF 2] process_item_dom [OF 1] stored_Cons [of env pat i items]
    by (simp add: image_Un Un_assoc)
qed

lemma process_items_vals:
  "process_items env pat st items = Inr st' \<Longrightarrow> code_files st' k = Some c \<Longrightarrow>
     code_files st k = Some c \<or> (k, c) \<in> stored env pat items"
proof (induction items arbitrary: st)
  case Nil
  then show ?case by simp
next
  case (Cons i items)
  from process_items_Cons_Inr [OF Cons.prems(1)] obtain st1
    where 1: "process_item env pat st i = Inr st1"
      and 2: "process_items env pat st1 items = Inr st'" by blast
  from Cons.IH [OF 2 Cons.prems(2)] process_item_vals [OF 1]
  show ?case using stored_Cons [of env pat i items] by auto
qed

lemma process_items_dir_path:
  "process_items env pat st items = Inr st' \<Longrightarrow>
     \<forall>i \<in> set items. is_dir i \<longrightarrow> i ''path'' \<noteq> None"
proof (induction items arbitrary: st)
  case Nil
  then show ?case by simp
next
  case (Cons i items)
  from process_items_Cons_Inr [OF Cons.prems] obtain st1
    where 1: "process_item env pat st i = Inr st1"
      and 2: "process_items env pat st1 items = Inr st'" by blast
  show ?case using Cons.IH [OF 2] process_item_dir_path [OF 1] by auto
qed

lemma process_items_ok:
  "\<forall>i \<in> set items. entry_ok env pat i \<Longrightarrow> \<exists>st'. process_items env pat st items = Inr st'"
proof (induction items arbitrary: st)
  case Nil
  then show ?case by simp
next
  case (Cons i items)
  then obtain st1 where 1: "process_item env pat st i = Inr st1"
    using process_item_ok [of env pat i st] by auto
  with Cons show ?case by simp
qed

subsection \<open>Reached paths\<close>

lemma reach_empty: "reach L {} = {}"
proof -
  have "x \<in> reach L {} \<Longrightarrow> False" for x
    by (induction rule: reach.induct) auto
  then show ?thesis by auto
qed

lemma reach_children: "p \<in> reach L Q \<Longrightarrow> d \<in> children L p \<Longrightarrow> d \<in> reach L Q"
  by (auto simp: children_def intro: reach.child)

lemma reach_trans: "x \<in> reach L Q' \<Longrightarrow> Q' \<subseteq> reach L Q \<Longrightarrow> x \<in> reach L Q"
  by (induction rule: reach.induct) (auto intro: reach.child)

lemma reach_insert:
  "reach L (insert p R) = insert p (reach L (R \<union> children L p))"
proof (intro equalityI subsetI)
  fix x assume "x \<in> reach L (insert p R)"
  then show "x \<in> insert p (reach L (R \<union> children L p))"
  proof (induction rule: reach.induct)
    case (start q)
    then show ?case by (auto intro: reach.start)
  next
    case (child p' items i d)
    show ?case
    proof (cases "p' = p")
      case True
      with child have "d \<in> children L p" by (auto simp: children_def)
      then show ?thesis by (auto intro: reach.start)
    next
      case False
      with child show ?thesis by (auto intro: reach.child)
    qed
  qed
next
  fix x assume "x \<in> insert p (reach L (R \<union> children L p))"
  moreover have p: "p \<in> reach L (insert p R)" by (auto intro: reach.start)
  moreover have "R \<union> children L p \<subseteq> reach L (insert p R)"
    using reach_children [OF p] by (auto intro: reach.start)
  ultimately show "x \<in> reach L (insert p R)"
    using reach_trans by blast
qed

lemma children_dir_paths:
  "L p = Inr items \<Longrightarrow> \<forall>i \<in> set items. is_dir i \<longrightarrow> i ''path'' \<noteq> None \<Longrightarrow>
     children L p = set (dir_paths items)"
  by (auto simp: children_def dir_paths_def image_iff) force

lemma files_from_empty: "files_from env pat L {} = {}"
  by (simp add: files_from_def reach_empty)

lemma files_from_insert:
  "L p = Inr items \<Longrightarrow>
     files_from env pat L (insert p R) =
     stored env pat items \<union> files_from env pat L (R \<union> children L p)"
  unfolding files_from_def reach_insert by auto

subsection \<open>One round of the loop\<close>

lemma loop_Nil:
  "queue st = [] \<Longrightarrow> loop env owner repo branch pat st = Some (Returns (code_files st))"
  by (subst loop.simps) simp

lemma loop_Cons_Inr:
  "queue st = p # rest \<Longrightarrow>
   iteration env owner repo branch pat p (st\<lparr>queue := rest\<rparr>) = Inr st' \<Longrightarrow>
   loop env owner repo branch pat st = loop env owner repo branch pat st'"
  by (subst loop.simps) simp

lemma loop_Cons_Inl:
  "queue st = p # rest \<Longrightarrow>
   iteration env owner repo branch pat p (st\<lparr>queue := rest\<rparr>) = Inl e \<Longrightarrow>
   loop env owner repo branch pat st = Some (handlers e)"
  by (subst loop.simps) simp

lemma handlers_Returns: "handlers e = Returns m \<Longrightarrow> m = Map.empty"
  by (auto simp: handlers_def split: if_splits)

lemma iteration_step:
  assumes it: "iteration env owner repo branch pat p (st\<lparr>queue := rest\<rparr>) = Inr st'"
    and L: "L = list_dir env owner repo branch pat"
  shows "\<exists>items. L p = Inr items \<and> queue st' = rest @ dir_paths items \<and>
    children L p = set (dir_paths items) \<and>
    dom (code_files st') = dom (code_files st) \<union> fst ` stored env pat items \<and>
    (\<forall>k c. code_files st' k = Some c \<longrightarrow>
       code_files st k = Some c \<or> (k, c) \<in> stored env pat items)"
proof -
  from it obtain items where items: "L p = Inr items"
    and pi: "process_items env pat (st\<lparr>queue := rest\<rparr>) items = Inr st'"
    by (auto simp: iteration_def L split: sum.splits)
  have 1: "queue st' = rest @ dir_paths items" using process_items_queue [OF pi] by simp
  have 2: "children L p = set (dir_paths items)"
    using children_dir_paths [of L p items] items process_items_dir_path [OF pi] by simp
  have 3: "dom (code_files st') = dom (code_files st) \<union> fst ` stored env pat items"
    using process_items_dom [OF pi] by simp
  have 4: "code_files st' k = Some c \<longrightarrow>
      code_files st k = Some c \<or> (k, c) \<in> stored env pat items" for k c
    using process_items_vals [OF pi, of k c] by simp
  show ?thesis
  proof (intro exI conjI allI)
    show "L p = Inr items" by fact
    show "queue st' = rest @ dir_paths items" by fact
    show "children L p = set (dir_paths items)" by fact
    show "dom (code_files st') = dom (code_files st) \<union> fst ` stored env pat items" by fact
    show "code_files st' k = Some c \<longrightarrow>
        code_files st k = Some c \<or> (k, c) \<in> stored env pat items" for k c
      by (rule 4)
  qed
qed

subsection \<open>Whole runs\<close>

lemma loop_total:
  assumes L: "L = list_dir env owner repo branch pat"
    and wf: "wf (child_rel L S)"
    and ok: "\<forall>p \<in> reach L S. \<exists>items. L p = Inr items \<and> (\<forall>i \<in> set items. entry_ok env pat i)"
    and sub: "set (queue st) \<subseteq> reach L S"
  shows "\<exists>m. loop env owner repo branch pat st = Some (Returns m) \<and>
           dom m = dom (code_files st) \<union> fst ` files_from env pat L (set (queue st)) \<and>
           (\<forall>k c. m k = Some c \<longrightarrow>
              code_files st k = Some c \<or> (k, c) \<in> files_from env pat L (set (queue st)))"
proof -
  have "wf (inv_image (mult1 (child_rel L S)) (\<lambda>st. mset (queue st)))"
    by (intro wf_inv_image wf_mult1 wf)
  then show ?thesis using sub
  proof (induction st rule: wf_induct_rule)
    case (less st)
    show ?case
    proof (cases "queue st")
      case Nil
      then show ?thesis
        by (simp add: loop_Nil files_from_empty)
    next
      case (Cons p rest)
      with less.prems have p: "p \<in> reach L S" and rest: "set rest \<subseteq> reach L S" by auto
      from ok p obtain items where items: "L p = Inr items"
        and eok: "\<forall>i \<in> set items. entry_ok env pat i" by blast
      from process_items_ok [OF eok] obtain st' where
        st': "process_items env pat (st\<lparr>queue := rest\<rparr>) items = Inr st'" by blast
      have it: "iteration env owner repo branch pat p (st\<lparr>queue := rest\<rparr>) = Inr st'"
        using items st' by (simp add: iteration_def L)
      have q': "queue st' = rest @ dir_paths items"
        using process_items_queue [OF st'] by simp
      have ch: "children L p = set (dir_paths items)"
        using items eok by (intro children_dir_paths) (auto simp: entry_ok_def)
      have sub': "set (queue st') \<subseteq> reach L S"
        using q' rest ch reach_children [OF p] by auto
      have "(mset (queue st'), mset (queue st)) \<in> mult1 (child_rel L S)"
        unfolding mult1_def
      proof (clarify, intro exI conjI allI impI)
        show "mset (queue st) = add_mset p (mset rest)" using Cons by simp
        show "mset (queue st') = mset rest + mset (dir_paths items)" using q' by simp
        fix b assume "b \<in># mset (dir_paths items)"
        then show "(b, p) \<in> child_rel L S" using ch p by (simp add: child_rel_def)
      qed
      then have "(st', st) \<in> inv_image (mult1 (child_rel L S)) (\<lambda>st. mset (queue st))"
        by simp
      from less.IH [OF this sub'] obtain m where
        m: "loop env owner repo branch pat st' = Some (Returns m)"
        and dm: "dom m = dom (code_files st') \<union> fst ` files_from env pat L (set (queue st'))"
        and vm: "\<forall>k c. m k = Some c \<longrightarrow>
              code_files st' k = Some c \<or> (k, c) \<in> files_from env pat L (set (queue st'))"
        by blast
      have ff: "files_from env pat L (set (queue st)) =
                  stored env pat items \<union> files_from env pat L (set (queue st'))"
        using files_from_insert [of L p items env pat "set rest"] items Cons q' ch by simp
      have d': "dom (code_files st') = dom (code_files st) \<union> fst ` stored env pat items"
        using process_items_dom [OF st'] by simp
      have v': "code_files st' k = Some c \<Longrightarrow>
                  code_files st k = Some c \<or> (k, c) \<in> stored env pat items" for k c
        using process_items_vals [OF st', of k c] by simp
      have "loop env owner repo branch pat st = Some (Returns m)"
        using loop_Cons_Inr [OF Cons it] m by simp
      moreover have "dom m = dom (code_files st) \<union> fst ` files_from env pat L (set (queue st))"
        unfolding dm d' ff by (simp add: image_Un Un_assoc)
      moreover have "\<forall>k c. m k = Some c \<longrightarrow>
              code_files st k = Some c \<or> (k, c) \<in> files_from env pat L (set (queue st))"
        using vm v' unfolding ff by blast
      ultimately show ?thesis by blast
    qed
  qed
qed

lemma loop_returns_vals:
  assumes "loop env owner repo branch pat st = Some y"
  shows "vals_ok env owner repo branch pat st y"
proof (rule loop.raw_induct [where P = vals_ok, OF _ assms])
  fix loop' env owner repo branch pat st y
  assume IH: "\<And>env owner repo branch pat st y.
    loop' env owner repo branch pat st = Some y \<Longrightarrow> vals_ok env owner repo branch pat st y"
  assume body: "(case queue st of
        [] \<Rightarrow> Some (Returns (code_files st))
      | current_path # rest \<Rightarrow>
          (case iteration env owner repo branch pat current_path (st\<lparr>queue := rest\<rparr>) of
             Inl e \<Rightarrow> Some (handlers e)
           | Inr st' \<Rightarrow> loop' env owner repo branch pat st')) = Some y"
  show "vals_ok env owner repo branch pat st y"
  proof (cases "queue st")
    case Nil
    with body show ?thesis by (auto simp: vals_ok_def)
  next
    case (Cons p rest)
    show ?thesis
    proof (cases "iteration env owner repo branch pat p (st\<lparr>queue := rest\<rparr>)")
      case (Inl e)
      with body Cons have "y = handlers e" by simp
      then show ?thesis using handlers_Returns [of e] by (auto simp: vals_ok_def)
    next
      case (Inr st')
      with body Cons have l': "loop' env owner repo branch pat st' = Some y" by simp
      note IH' = IH [OF l', unfolded vals_ok_def]
      obtain items where items: "list_dir env owner repo branch pat p = Inr items"
        and q': "queue st' = rest @ dir_paths items"
        and ch: "children (list_dir env owner repo branch pat) p = set (dir_paths items)"
        and v': "\<forall>k c. code_files st' k = Some c \<longrightarrow>
                   code_files st k = Some c \<or> (k, c) \<in> stored env pat items"
        using iteration_step [OF Inr refl] by (elim exE conjE)
      have ff: "files_from env pat (list_dir env owner repo branch pat) (set (queue st)) =
            stored env pat items \<union>
            files_from env pat (list_dir env owner repo branch pat) (set (queue st'))"
        using files_from_insert [of "list_dir env owner repo branch pat" p items env pat "set rest"]
          items Cons q' ch by simp
      show ?thesis unfolding vals_ok_def ff using IH' v' by blast
    qed
  qed
qed

lemma returned_values:
  assumes "get_github_code_files env owner repo branch path pat = Some (Returns m)"
    and "m k = Some c"
  shows "(k, c) \<in> files_from env pat (list_dir env owner repo branch pat) {JStr (strip_slash path)}"
  using loop_returns_vals [of env owner repo branch pat "initial path" "Returns m"] assms
  by (simp add: get_github_code_files_def vals_ok_def initial_def)

lemma configs_continue:
  "(st, todo) \<in> configs env owner repo branch path pat \<Longrightarrow>
     get_github_code_files env owner repo branch path pat =
     continue env owner repo branch pat st todo"
proof (induction rule: configs.induct)
  case enter
  show ?case by (simp add: get_github_code_files_def continue_def)
next
  case (popleft st p rest items)
  have "loop env owner repo branch pat st =
          continue env owner repo branch pat (st\<lparr>queue := rest\<rparr>) items"
    using popleft.hyps(2,3) by (subst loop.simps) (simp add: iteration_def continue_def)
  with popleft.IH show ?case by (simp add: continue_def)
next
  case (entry st i todo st')
  then show ?case by (simp add: continue_def)
qed

text \<open>What holds in every configuration: the queue holds reached paths, the entries
  still to visit belong to the listing of a reached path, and every stored pair comes from
  a file entry of such a listing.\<close>

lemma configs_invariant:
  assumes "(st, todo) \<in> configs env owner repo branch path pat"
    and L: "L = list_dir env owner repo branch pat" and S: "S = {JStr (strip_slash path)}"
  shows "set (queue st) \<subseteq> reach L S \<and>
         (todo = [] \<or> (\<exists>p \<in> reach L S. \<exists>items. L p = Inr items \<and> set todo \<subseteq> set items)) \<and>
         (\<forall>k c. code_files st k = Some c \<longrightarrow> (k, c) \<in> files_from env pat L S)"
  using assms(1)
proof (induction rule: configs.induct)
  case enter
  show ?case by (auto simp: initial_def S intro: reach.start)
next
  case (popleft st p rest items)
  then have "p \<in> reach L S" by auto
  with popleft show ?case unfolding L by auto
next
  case (entry st i todo st')
  then obtain p items where p: "p \<in> reach L S" and items: "L p = Inr items"
    and sub: "set (i # todo) \<subseteq> set items" by blast
  have i: "i \<in> set items" using sub by simp
  have q: "queue st' = queue st @ dir_paths [i]" by (rule process_item_queue [OF entry.hyps(2)])
  have "set (dir_paths [i]) \<subseteq> reach L S"
  proof
    fix d assume "d \<in> set (dir_paths [i])"
    then have "is_dir i" and "d = the (i ''path'')"
      by (auto simp: dir_paths_def split: if_splits)
    moreover from process_item_dir_path [OF entry.hyps(2) \<open>is_dir i\<close>]
    have "i ''path'' \<noteq> None" .
    ultimately have "i ''path'' = Some d" by auto
    from reach.child [OF p items i \<open>is_dir i\<close> this] show "d \<in> reach L S" .
  qed
  moreover have "stored env pat [i] \<subseteq> files_from env pat L S"
    using p items i by (auto simp: stored_def files_from_def)
  moreover have "todo = [] \<or> (\<exists>p \<in> reach L S. \<exists>items. L p = Inr items \<and> set todo \<subseteq> set items)"
    using p items sub by auto
  moreover have "code_files st' k = Some c \<longrightarrow> (k, c) \<in> files_from env pat L S" for k c
    using entry.IH process_item_vals [OF entry.hyps(2), of k c]
      \<open>stored env pat [i] \<subseteq> files_from env pat L S\<close> by blast
  ultimately show ?case
    using entry.IH q by simp
qed

subsection \<open>The branches of one entry\<close>

lemma process_item_file:
  assumes "i ''type'' = Some (JStr ''file'')" and "i ''path'' = Some fp"
    and "file_content env pat i = Inr r"
  shows "process_item env pat st i =
           Inr (case r of None \<Rightarrow> st | Some c \<Rightarrow> st\<lparr>code_files := (code_files st)(fp \<mapsto> c)\<rparr>)"
  using assms by (simp add: process_item_def getitem_def split: option.splits)

lemma process_item_dir:
  assumes "i ''type'' = Some (JStr ''dir'')" and "i ''path'' = Some d"
  shows "process_item env pat st i = Inr (st\<lparr>queue := queue st @ [d]\<rparr>)"
  using assms by (simp add: process_item_def getitem_def)

lemma file_content_inline:
  assumes "\<not> has_download_url i" and "i ''content'' = Some (JStr c)" and "c \<noteq> []"
    and "i ''encoding'' = Some (JStr ''base64'')"
    and "b64decode env c = Inr bytes" and "utf8_decode env bytes = Inr s"
  shows "file_content env pat i = Inr (Some s)"
  using assms
  by (auto simp: file_content_def has_download_url_def contains_def getitem_def decode_content_def)

lemma file_content_url:
  assumes "i ''download_url'' = Some (JStr u)" and "u \<noteq> []"
  shows "file_content env pat i =
           (case fetch_download env pat u of
              Inr txt \<Rightarrow> Inr (Some txt)
            | Inl e \<Rightarrow> if isinstance_RequestException e then Inr None else Inl e)"
  using assms by (simp add: file_content_def contains_def)

text \<open>The other exception that leaves the content chain: a \<^verbatim>\<open>ValueError\<close> of the base64
  decoder that is neither \<^verbatim>\<open>binascii.Error\<close> nor \<^verbatim>\<open>UnicodeDecodeError\<close> (the one that
  \<^verbatim>\<open>b64decode\<close> raises for a \<^verbatim>\<open>str\<close> with non-ASCII characters) passes the inner handler;
  the outer \<^verbatim>\<open>except ValueError\<close> ends the run with the empty dictionary.\<close>

lemma decode_value_error_returns_empty:
  assumes "(st, i # todo) \<in> configs env owner repo branch path pat"
    and "i ''type'' = Some (JStr ''file'')" and "i ''path'' \<noteq> None"
    and "\<not> has_download_url i"
    and "i ''content'' = Some (JStr c)" and "c \<noteq> []"
    and "i ''encoding'' = Some (JStr ''base64'')"
    and "b64decode env c = Inl ValueError"
  shows "get_github_code_files env owner repo branch path pat = Some (Returns Map.empty)"
proof -
  have "file_content env pat i = Inl ValueError"
    using assms(4-8)
    by (auto simp: file_content_def has_download_url_def contains_def getitem_def
        decode_content_def)
  with assms(2,3) have "process_item env pat st i = Inl ValueError"
    by (auto simp: process_item_def getitem_def)
  then have "continue env owner repo branch pat st (i # todo) = Some (handlers ValueError)"
    by (simp add: continue_def)
  with configs_continue [OF assms(1)] show ?thesis by (simp add: handlers_def)
qed

subsection \<open>Reached files\<close>

lemma entry_ok_I:
  assumes "i ''type'' \<noteq> None" and "is_file i \<or> is_dir i \<longrightarrow> i ''path'' \<noteq> None"
    and "is_file i \<longrightarrow> (\<exists>r. file_content env pat i = Inr r)"
  shows "entry_ok env pat i"
  using assms by (auto simp: entry_ok_def)

lemma files_from_paths:
  "fst ` files_from env pat L S \<subseteq> file_paths L S"
  by (auto simp: files_from_def stored_def file_paths_def file_entries_def) blast

lemma file_paths_files_from:
  assumes "\<forall>i \<in> file_entries L S. \<exists>c. file_content env pat i = Inr (Some c)"
  shows "file_paths L S \<subseteq> fst ` files_from env pat L S"
proof
  fix k assume "k \<in> file_paths L S"
  then obtain i where i: "i \<in> file_entries L S" "i ''path'' = Some k"
    by (auto simp: file_paths_def)
  then obtain p items where p: "p \<in> reach L S" "L p = Inr items" "i \<in> set items" "is_file i"
    by (auto simp: file_entries_def)
  from assms i(1) obtain c where "file_content env pat i = Inr (Some c)" by blast
  with i p have "(k, c) \<in> files_from env pat L S"
    by (auto simp: files_from_def stored_def)
  then show "k \<in> fst ` files_from env pat L S" by force
qed

lemma files_from_reported:
  "(k, c) \<in> files_from env pat L S \<Longrightarrow> reported L S ''file'' k"
  by (auto simp: files_from_def stored_def reported_def is_file_def)

subsection \<open>Failing requests and missing keys\<close>

lemma handlers_KeyError: "handlers (KeyError k) = Raises (KeyError k)"
  by (simp add: handlers_def)

lemma listing_fails_Inl:
  assumes "listing_fails env owner repo branch pat p"
  shows "\<exists>e. list_dir env owner repo branch pat p = Inl e \<and> handlers e = Returns Map.empty"
proof (cases "session_get env (contents_url owner repo branch p) (headers pat)")
  case (Inl e)
  with assms have "isinstance_RequestException e" by (simp add: listing_fails_def)
  then have "handlers e = Returns Map.empty" by (cases e) (simp_all add: handlers_def)
  with Inl show ?thesis by (simp add: list_dir_def)
next
  case (Inr r)
  with assms have f: "(400 \<le> status_code r \<and> status_code r < 600) \<or> json r = Malformed"
    by (simp add: listing_fails_def)
  show ?thesis
  proof (cases "400 \<le> status_code r \<and> status_code r < 600")
    case True
    with Inr show ?thesis by (simp add: list_dir_def raise_for_status_def handlers_def)
  next
    case False
    with f have "json r = Malformed" by simp
    with Inr False show ?thesis by (simp add: list_dir_def raise_for_status_def handlers_def)
  qed
qed

lemma file_content_no_encoding:
  assumes "\<not> has_download_url i" and "contains i ''content''" and "truthy (the (i ''content''))"
    and "i ''encoding'' = None"
  shows "file_content env pat i = Inl (KeyError ''encoding'')"
  using assms by (auto simp: file_content_def has_download_url_def getitem_def)

lemma download_fails_Inl:
  assumes "download_fails env pat u"
  shows "\<exists>e. fetch_download env pat u = Inl e \<and> isinstance_RequestException e"
proof (cases "session_get env u [(''Authorization'', ''token '' @ pat)]")
  case (Inl e)
  with assms show ?thesis by (simp add: download_fails_def fetch_download_def)
next
  case (Inr r)
  with assms show ?thesis
    by (simp add: download_fails_def fetch_download_def raise_for_status_def)
qed

lemma file_content_failed_download:
  assumes "i ''download_url'' = Some (JStr u)" and "u \<noteq> []" and "download_fails env pat u"
  shows "file_content env pat i = Inr None"
proof -
  from download_fails_Inl [OF assms(3)] obtain e
    where "fetch_download env pat u = Inl e" "isinstance_RequestException e" by blast
  with file_content_url [of i u env pat] assms(1,2) show ?thesis by simp
qed

lemma file_content_ignores_inline:
  assumes "has_download_url i"
  shows "file_content env pat (i(''content'' := x, ''encoding'' := y)) = file_content env pat i"
  using assms by (simp add: file_content_def has_download_url_def contains_def)

subsection \<open>Environments that answer alike\<close>

lemma loop_transfers:
  assumes "loop env owner repo branch pat st = Some y"
  shows "transfers env owner repo branch pat st y"
proof (rule loop.raw_induct [where P = transfers, OF _ assms])
  fix loop' env owner repo branch pat st y
  assume IH: "\<And>env owner repo branch pat st y.
    loop' env owner repo branch pat st = Some y \<Longrightarrow> transfers env owner repo branch pat st y"
  assume body: "(case queue st of
        [] \<Rightarrow> Some (Returns (code_files st))
      | current_path # rest \<Rightarrow>
          (case iteration env owner repo branch pat current_path (st\<lparr>queue := rest\<rparr>) of
             Inl e \<Rightarrow> Some (handlers e)
           | Inr st' \<Rightarrow> loop' env owner repo branch pat st')) = Some y"
  show "transfers env owner repo branch pat st y"
    unfolding transfers_def
  proof (intro allI impI, elim conjE)
    fix env' R
    assume same: "\<forall>p \<in> R. \<forall>s. iteration env' owner repo branch pat p s =
                       iteration env owner repo branch pat p s"
      and closed: "\<forall>p \<in> R. \<forall>s s'. iteration env owner repo branch pat p s = Inr s' \<and>
                          set (queue s) \<subseteq> R \<longrightarrow> set (queue s') \<subseteq> R"
      and sub: "set (queue st) \<subseteq> R"
    show "loop env' owner repo branch pat st = Some y"
    proof (cases "queue st")
      case Nil
      with body show ?thesis by (simp add: loop_Nil)
    next
      case (Cons p rest)
      with sub have p: "p \<in> R" and rest: "set rest \<subseteq> R" by auto
      from same p have eq: "iteration env' owner repo branch pat p (st\<lparr>queue := rest\<rparr>) =
          iteration env owner repo branch pat p (st\<lparr>queue := rest\<rparr>)" by blast
      show ?thesis
      proof (cases "iteration env owner repo branch pat p (st\<lparr>queue := rest\<rparr>)")
        case (Inl e)
        with body Cons have "y = handlers e" by simp
        with loop_Cons_Inl [OF Cons, of env' owner repo branch pat e] eq Inl
        show ?thesis by simp
      next
        case (Inr st')
        with body Cons have l': "loop' env owner repo branch pat st' = Some y" by simp
        from closed p Inr rest have "set (queue st') \<subseteq> R"
          by (metis select_convs(1) surjective update_convs(1))
        with IH [OF l', unfolded transfers_def] same closed
        have "loop env' owner repo branch pat st' = Some y" by blast
        with loop_Cons_Inr [OF Cons, of env' owner repo branch pat st'] eq Inr
        show ?thesis by simp
      qed
    qed
  qed
qed

lemma process_item_same:
  assumes "is_file i \<longrightarrow> file_content env' pat i = file_content env pat i"
  shows "process_item env' pat st i = process_item env pat st i"
  using assms
  by (auto simp: process_item_def is_file_def getitem_def split: option.splits sum.splits)

lemma process_items_same:
  assumes "\<forall>i \<in> set items. is_file i \<longrightarrow> file_content env' pat i = file_content env pat i"
  shows "process_items env' pat st items = process_items env pat st items"
  using assms
proof (induction items arbitrary: st)
  case Nil
  show ?case by simp
next
  case (Cons i items)
  then have "process_item env' pat st i = process_item env pat st i"
    by (intro process_item_same) simp
  with Cons show ?case by (simp split: sum.splits)
qed

lemma file_content_same:
  assumes "b64decode env' = b64decode env" and "utf8_decode env' = utf8_decode env"
    and "has_download_url i \<longrightarrow>
         session_get env' (py_str (the (i ''download_url''))) [(''Authorization'', ''token '' @ pat)] =
         session_get env (py_str (the (i ''download_url''))) [(''Authorization'', ''token '' @ pat)]"
  shows "file_content env' pat i = file_content env pat i"
proof -
  have dc: "decode_content env' = decode_content env"
    unfolding decode_content_def assms(1) assms(2) by (rule refl)
  show ?thesis
  proof (cases "has_download_url i")
    case True
    with assms(3) have fd: "fetch_download env' pat (py_str (the (i ''download_url''))) =
        fetch_download env pat (py_str (the (i ''download_url'')))"
      by (simp add: fetch_download_def)
    show ?thesis unfolding file_content_def dc fd by (rule refl)
  next
    case False
    then have "\<not> (contains i ''download_url'' \<and> truthy (the (i ''download_url'')))"
      by (simp add: has_download_url_def)
    then show ?thesis unfolding file_content_def dc by auto
  qed
qed

lemma reach_closed_iteration:
  assumes "iteration env owner repo branch pat p s = Inr s'"
    and "p \<in> reach (list_dir env owner repo branch pat) S"
    and "set (queue s) \<subseteq> reach (list_dir env owner repo branch pat) S"
  shows "set (queue s') \<subseteq> reach (list_dir env owner repo branch pat) S"
proof -
  have "iteration env owner repo branch pat p (s\<lparr>queue := queue s\<rparr>) = Inr s'"
    using assms(1) by simp
  from iteration_step [OF this refl] obtain items
    where "queue s' = queue s @ dir_paths items"
      and "children (list_dir env owner repo branch pat) p = set (dir_paths items)"
    by blast
  with assms(2,3) reach_children [OF assms(2)] show ?thesis by auto
qed

lemma same_answers_iteration:
  assumes "same_answers env env' owner repo branch path pat"
    and "p \<in> reach (list_dir env owner repo branch pat) {JStr (strip_slash path)}"
  shows "iteration env' owner repo branch pat p s = iteration env owner repo branch pat p s"
proof -
  let ?L = "list_dir env owner repo branch pat" and ?S = "{JStr (strip_slash path)}"
  from assms have l: "list_dir env' owner repo branch pat p = ?L p"
    by (simp add: same_answers_def list_dir_def)
  show ?thesis
  proof (cases "?L p")
    case (Inl e)
    with l show ?thesis by (simp add: iteration_def)
  next
    case (Inr items)
    have "\<forall>i \<in> set items. is_file i \<longrightarrow> file_content env' pat i = file_content env pat i"
    proof (intro ballI impI)
      fix i assume "i \<in> set items" "is_file i"
      with assms(2) Inr have "i \<in> file_entries ?L ?S" by (auto simp: file_entries_def)
      with assms(1) show "file_content env' pat i = file_content env pat i"
        by (intro file_content_same) (simp_all add: same_answers_def)
    qed
    from process_items_same [OF this] l Inr show ?thesis by (simp add: iteration_def)
  qed
qed

lemma same_answers_run:
  assumes same: "same_answers env env' owner repo branch path pat"
    and run: "get_github_code_files env owner repo branch path pat = Some y"
  shows "get_github_code_files env' owner repo branch path pat = Some y"
proof -
  let ?R = "reach (list_dir env owner repo branch pat) {JStr (strip_slash path)}"
  from run have "transfers env owner repo branch pat (initial path) y"
    by (intro loop_transfers) (simp add: get_github_code_files_def)
  moreover have "\<forall>p \<in> ?R. \<forall>s. iteration env' owner repo branch pat p s =
                       iteration env owner repo branch pat p s"
    using same_answers_iteration [OF same] by blast
  moreover have "\<forall>p \<in> ?R. \<forall>s s'. iteration env owner repo branch pat p s = Inr s' \<and>
                          set (queue s) \<subseteq> ?R \<longrightarrow> set (queue s') \<subseteq> ?R"
    using reach_closed_iteration by blast
  moreover have "set (queue (initial path)) \<subseteq> ?R"
    by (auto simp: initial_def intro: reach.start)
  ultimately show ?thesis
    unfolding transfers_def get_github_code_files_def by blast
qed

lemma same_answers_back:
  assumes same: "same_answers env env' owner repo branch path pat"
    and run: "get_github_code_files env' owner repo branch path pat = Some y"
  shows "get_github_code_files env owner repo branch path pat = Some y"
proof -
  let ?R = "reach (list_dir env owner repo branch pat) {JStr (strip_slash path)}"
  have eq: "\<forall>p \<in> ?R. \<forall>s. iteration env owner repo branch pat p s =
                       iteration env' owner repo branch pat p s"
    using same_answers_iteration [OF same] by simp
  from run have "transfers env' owner repo branch pat (initial path) y"
    by (intro loop_transfers) (simp add: get_github_code_files_def)
  moreover have "\<forall>p \<in> ?R. \<forall>s s'. iteration env' owner repo branch pat p s = Inr s' \<and>
                          set (queue s) \<subseteq> ?R \<longrightarrow> set (queue s') \<subseteq> ?R"
    using reach_closed_iteration [of env owner repo branch pat] eq by metis
  moreover have "set (queue (initial path)) \<subseteq> ?R"
    by (auto simp: initial_def intro: reach.start)
  ultimately show ?thesis
    using eq unfolding transfers_def get_github_code_files_def by blast
qed

subsection \<open>The example repositories\<close>

lemma contents_url_root: "contents_url ''octo'' ''demo'' ''main'' (JStr []) = root_url"
  by (simp add: contents_url_def base_url_def root_url_def)

lemma contents_url_sub: "contents_url ''octo'' ''demo'' ''main'' (JStr ''sub'') = sub_url"
  by (simp add: contents_url_def base_url_def sub_url_def)

lemma tree_list_root:
  "list_dir (fixture_env tree_table) ''octo'' ''demo'' ''main'' ''s3cret'' (JStr []) = Inr [a_txt, sub_dir]"
  by (simp add: list_dir_def contents_url_root fixture_env_def serve_def headers_def tree_table_def
      raise_for_status_def ok_json_def)

lemma tree_list_sub:
  "list_dir (fixture_env tree_table) ''octo'' ''demo'' ''main'' ''s3cret'' (JStr ''sub'') = Inr [b_txt]"
  by (simp add: list_dir_def contents_url_sub fixture_env_def serve_def headers_def tree_table_def
      raise_for_status_def ok_json_def root_url_def sub_url_def)

lemma file_content_a:
  "file_content (fixture_env t) ''s3cret'' a_txt = Inr (Some ''hello'')"
  by (simp add: file_content_def a_txt_def contains_def getitem_def decode_content_def
      fixture_env_def fixture_b64decode_def)

lemma file_content_b:
  "file_content (fixture_env tree_table) ''s3cret'' b_txt = Inr (Some ''world'')"
  by (simp add: file_content_def b_txt_def contains_def fetch_download_def
      fixture_env_def serve_def tree_table_def raise_for_status_def ok_text_def
      root_url_def sub_url_def b_url_def)

lemma tree_children_root:
  "children (list_dir (fixture_env tree_table) ''octo'' ''demo'' ''main'' ''s3cret'') (JStr []) = {JStr ''sub''}"
  by (subst children_dir_paths [of "list_dir (fixture_env tree_table) ''octo'' ''demo'' ''main'' ''s3cret''" "JStr []" "[a_txt, sub_dir]"])
     (auto simp: tree_list_root dir_paths_def is_dir_def a_txt_def sub_dir_def)

lemma tree_children_sub:
  "children (list_dir (fixture_env tree_table) ''octo'' ''demo'' ''main'' ''s3cret'') (JStr ''sub'') = {}"
  by (subst children_dir_paths [of "list_dir (fixture_env tree_table) ''octo'' ''demo'' ''main'' ''s3cret''" "JStr ''sub''" "[b_txt]"])
     (auto simp: tree_list_sub dir_paths_def is_dir_def b_txt_def)

lemma tree_reach:
  "reach (list_dir (fixture_env tree_table) ''octo'' ''demo'' ''main'' ''s3cret'') {JStr []} =
     {JStr [], JStr ''sub''}"
  by (simp add: reach_insert tree_children_root tree_children_sub reach_empty)

lemma tree_wf:
  "wf (child_rel (list_dir (fixture_env tree_table) ''octo'' ''demo'' ''main'' ''s3cret'') {JStr []})"
proof (rule wf_subset [OF wf_measure])
  show "child_rel (list_dir (fixture_env tree_table) ''octo'' ''demo'' ''main'' ''s3cret'') {JStr []}
          \<subseteq> measure (\<lambda>p. if p = JStr [] then 1 else 0)"
    by (auto simp: child_rel_def tree_reach tree_children_root tree_children_sub)
qed

lemma tree_file_entries:
  "file_entries (list_dir (fixture_env tree_table) ''octo'' ''demo'' ''main'' ''s3cret'') {JStr []} =
     {a_txt, b_txt}"
  by (auto simp: file_entries_def tree_reach tree_list_root tree_list_sub is_file_def
      a_txt_def b_txt_def sub_dir_def)

lemma tree_file_paths:
  "file_paths (list_dir (fixture_env tree_table) ''octo'' ''demo'' ''main'' ''s3cret'') {JStr []} =
     {JStr ''a.txt'', JStr ''sub/b.txt''}"
  by (auto simp: file_paths_def tree_file_entries a_txt_def b_txt_def)

lemma strip_slash_a: "strip_slash ''/a.txt'' = ''a.txt''"
  by (simp add: strip_slash_def)

lemma contents_url_a: "contents_url ''octo'' ''demo'' ''main'' (JStr ''a.txt'') = a_url"
  by (simp add: contents_url_def base_url_def a_url_def)

lemma process_item_a:
  "process_item (fixture_env t) ''s3cret'' st a_txt =
     Inr (st\<lparr>code_files := (code_files st)(JStr ''a.txt'' \<mapsto> ''hello'')\<rparr>)"
  using process_item_file [of a_txt "JStr ''a.txt''" "fixture_env t" "''s3cret''" "Some ''hello''" st]
  by (simp add: file_content_a) (simp add: a_txt_def)

lemma process_item_sub:
  "process_item env pat st sub_dir = Inr (st\<lparr>queue := queue st @ [JStr ''sub'']\<rparr>)"
  by (rule process_item_dir) (simp_all add: sub_dir_def)

lemma process_item_no_enc:
  "process_item env pat st no_enc = Inl (KeyError ''encoding'')"
proof -
  have "file_content env pat no_enc = Inl (KeyError ''encoding'')"
    by (rule file_content_no_encoding)
       (simp_all add: no_enc_def has_download_url_def contains_def)
  then show ?thesis by (simp add: process_item_def getitem_def no_enc_def)
qed

lemma list_root_generic:
  assumes "map_of t root_url = Some (ok_json (Array items))"
  shows "list_dir (fixture_env t) ''octo'' ''demo'' ''main'' ''s3cret'' (JStr []) = Inr items"
  using assms
  by (simp add: list_dir_def contents_url_root fixture_env_def serve_def headers_def
      raise_for_status_def ok_json_def)

lemma broken_list_root:
  "list_dir (fixture_env broken_table) ''octo'' ''demo'' ''main'' ''s3cret'' (JStr []) =
     Inr [a_txt, sub_dir]"
  by (rule list_root_generic) (simp add: broken_table_def)

lemma broken_config:
  "(\<lparr>queue = [JStr ''sub''], code_files = [JStr ''a.txt'' \<mapsto> ''hello'']\<rparr>, []) \<in>
     configs (fixture_env broken_table) ''octo'' ''demo'' ''main'' [] ''s3cret''"
proof -
  let ?C = "configs (fixture_env broken_table) ''octo'' ''demo'' ''main'' [] ''s3cret''"
  have 0: "(initial [], []) \<in> ?C" by (rule configs.enter)
  have "((initial [])\<lparr>queue := []\<rparr>, [a_txt, sub_dir]) \<in> ?C"
    by (rule configs.popleft [OF 0 _ broken_list_root]) (simp add: initial_def strip_slash_def)
  then have 1: "(\<lparr>queue = [], code_files = Map.empty\<rparr>, [a_txt, sub_dir]) \<in> ?C"
    by (simp add: initial_def)
  have 2: "(\<lparr>queue = [], code_files = [JStr ''a.txt'' \<mapsto> ''hello'']\<rparr>, [sub_dir]) \<in> ?C"
    using configs.entry [OF 1 process_item_a] by simp
  show ?thesis
    using configs.entry [OF 2 process_item_sub] by simp
qed

lemma broken_sub_fails:
  "listing_fails (fixture_env broken_table) ''octo'' ''demo'' ''main'' ''s3cret'' (JStr ''sub'')"
  by (simp add: listing_fails_def contents_url_sub fixture_env_def serve_def headers_def
      broken_table_def root_url_def sub_url_def no_body_def)

lemma status300_list_root:
  "list_dir (fixture_env status300_table) ''octo'' ''demo'' ''main'' ''s3cret'' (JStr []) = Inr [a_txt]"
  by (simp add: list_dir_def contents_url_root fixture_env_def serve_def headers_def
      raise_for_status_def status300_table_def multiple_choices_def)

lemma no_enc_list_root:
  "list_dir (fixture_env no_enc_table) ''octo'' ''demo'' ''main'' ''s3cret'' (JStr []) =
     Inr [a_txt, no_enc, sub_dir]"
  by (rule list_root_generic) (simp add: no_enc_table_def)

lemma no_enc_first_list_root:
  "list_dir (fixture_env no_enc_first_table) ''octo'' ''demo'' ''main'' ''s3cret'' (JStr []) =
     Inr [no_enc, a_txt, sub_dir]"
  by (rule list_root_generic) (simp add: no_enc_first_table_def)

lemma no_enc_config:
  "(\<lparr>queue = [], code_files = [JStr ''a.txt'' \<mapsto> ''hello'']\<rparr>, [no_enc, sub_dir]) \<in>
     configs (fixture_env no_enc_table) ''octo'' ''demo'' ''main'' [] ''s3cret''"
proof -
  let ?C = "configs (fixture_env no_enc_table) ''octo'' ''demo'' ''main'' [] ''s3cret''"
  have 0: "(initial [], []) \<in> ?C" by (rule configs.enter)
  have "((initial [])\<lparr>queue := []\<rparr>, [a_txt, no_enc, sub_dir]) \<in> ?C"
    by (rule configs.popleft [OF 0 _ no_enc_list_root]) (simp add: initial_def strip_slash_def)
  then have 1: "(\<lparr>queue = [], code_files = Map.empty\<rparr>, [a_txt, no_enc, sub_dir]) \<in> ?C"
    by (simp add: initial_def)
  show ?thesis
    using configs.entry [OF 1 process_item_a] by simp
qed

lemma dead_list_root:
  "list_dir (fixture_env dead_table) ''octo'' ''demo'' ''main'' ''s3cret'' (JStr []) =
     Inr [d_txt, a_txt]"
  by (rule list_root_generic) (simp add: dead_table_def)

lemma dead_download_fails: "download_fails (fixture_env dead_table) ''s3cret'' dead_url"
  by (simp add: download_fails_def fixture_env_def serve_def dead_table_def root_url_def
      dead_url_def no_body_def)

lemma dead_reach:
  "reach (list_dir (fixture_env dead_table) ''octo'' ''demo'' ''main'' ''s3cret'') {JStr []} =
     {JStr []}"
proof -
  have "children (list_dir (fixture_env dead_table) ''octo'' ''demo'' ''main'' ''s3cret'') (JStr []) = {}"
    by (subst children_dir_paths [of _ "JStr []" "[d_txt, a_txt]"])
       (auto simp: dead_list_root dir_paths_def is_dir_def a_txt_def d_txt_def)
  then show ?thesis by (simp add: reach_insert reach_empty)
qed

lemma dead_file_entries:
  "file_entries (list_dir (fixture_env dead_table) ''octo'' ''demo'' ''main'' ''s3cret'') {JStr []} =
     {d_txt, a_txt}"
  by (auto simp: file_entries_def dead_reach dead_list_root is_file_def a_txt_def d_txt_def)

lemma dead_result:
  "get_github_code_files (fixture_env dead_table) ''octo'' ''demo'' ''main'' [] ''s3cret'' =
     Some (Returns [JStr ''a.txt'' \<mapsto> ''hello''])"
proof -
  let ?env = "fixture_env dead_table"
  let ?st = "\<lparr>queue = [], code_files = [JStr ''a.txt'' \<mapsto> ''hello'']\<rparr>"
  have fd: "file_content ?env ''s3cret'' d_txt = Inr None"
    using file_content_failed_download [of d_txt dead_url ?env "''s3cret''"] dead_download_fails
    by (simp add: d_txt_def dead_url_def)
  have pd: "process_item ?env ''s3cret'' st d_txt = Inr st" for st
    using process_item_file [of d_txt "JStr ''d.txt''" ?env "''s3cret''" None st] fd
    by (simp add: d_txt_def)
  have "iteration ?env ''octo'' ''demo'' ''main'' ''s3cret'' (JStr []) ((initial [])\<lparr>queue := []\<rparr>) =
          Inr ?st"
    by (simp add: iteration_def dead_list_root pd process_item_a initial_def)
  then have "loop ?env ''octo'' ''demo'' ''main'' ''s3cret'' (initial []) =
      loop ?env ''octo'' ''demo'' ''main'' ''s3cret'' ?st"
    by (intro loop_Cons_Inr) (simp_all add: initial_def strip_slash_def)
  also have "\<dots> = Some (Returns (code_files ?st))"
    by (rule loop_Nil) simp
  finally show ?thesis by (simp add: get_github_code_files_def)
qed

lemma tree_config:
  "(\<lparr>queue = [], code_files = [JStr ''a.txt'' \<mapsto> ''hello'']\<rparr>, [sub_dir]) \<in>
     configs (fixture_env tree_table) ''octo'' ''demo'' ''main'' [] ''s3cret''"
proof -
  let ?C = "configs (fixture_env tree_table) ''octo'' ''demo'' ''main'' [] ''s3cret''"
  have 0: "(initial [], []) \<in> ?C" by (rule configs.enter)
  have "((initial [])\<lparr>queue := []\<rparr>, [a_txt, sub_dir]) \<in> ?C"
    by (rule configs.popleft [OF 0 _ tree_list_root]) (simp add: initial_def strip_slash_def)
  then have 1: "(\<lparr>queue = [], code_files = Map.empty\<rparr>, [a_txt, sub_dir]) \<in> ?C"
    by (simp add: initial_def)
  show ?thesis
    using configs.entry [OF 1 process_item_a] by simp
qed

lemma tree_same_answers:
  "same_answers (fixture_env tree_table) (fixture_env tree_table_more)
     ''octo'' ''demo'' ''main'' [] ''s3cret''"
proof -
  have S: "strip_slash [] = []" by (simp add: strip_slash_def)
  have a: "\<not> has_download_url a_txt"
    by (simp add: has_download_url_def contains_def a_txt_def)
  have b: "the (b_txt ''download_url'') = JStr b_url" by (simp add: b_txt_def)
  show ?thesis
    unfolding same_answers_def S tree_reach tree_file_entries
    by (simp add: a b contents_url_root contents_url_sub fixture_env_def serve_def headers_def
        tree_table_more_def tree_table_def root_url_def sub_url_def b_url_def other_url_def)
qed

section \<open>The claims\<close>

text \<open>
  C1. When the directories below the starting path form a tree (the subdirectory relation is
  well-founded and no path is listed both as a file and as a directory), every listing
  request succeeds, every entry has its type and path, and every file entry is retrievable,
  the call returns a dictionary whose keys are exactly the paths of the file entries reached
  from the starting path; no reached directory path is a key.
\<close>

theorem key_set_is_file_paths:
  assumes L: "L = list_dir env owner repo branch pat" and S: "S = {JStr (strip_slash path)}"
    and tree: "wf (child_rel L S)"
    and listings: "\<forall>p \<in> reach L S. \<exists>items. L p = Inr items"
    and entries: "\<forall>p \<in> reach L S. \<forall>items. L p = Inr items \<longrightarrow>
        (\<forall>i \<in> set items. i ''type'' \<noteq> None \<and> (is_file i \<or> is_dir i \<longrightarrow> i ''path'' \<noteq> None))"
    and retrievable: "\<forall>i \<in> file_entries L S. \<exists>c. file_content env pat i = Inr (Some c)"
    and disjoint: "file_paths L S \<inter> reach L S = {}"
  shows "\<exists>m. get_github_code_files env owner repo branch path pat = Some (Returns m) \<and>
           dom m = file_paths L S \<and> dom m \<inter> reach L S = {}"
proof -
  have ok: "\<forall>p \<in> reach L S. \<exists>items. L p = Inr items \<and> (\<forall>i \<in> set items. entry_ok env pat i)"
  proof
    fix p assume p: "p \<in> reach L S"
    with listings obtain items where items: "L p = Inr items" by blast
    have "entry_ok env pat i" if i: "i \<in> set items" for i
    proof (rule entry_ok_I)
      show "i ''type'' \<noteq> None" using entries p items i by blast
      show "is_file i \<or> is_dir i \<longrightarrow> i ''path'' \<noteq> None" using entries p items i by blast
      show "is_file i \<longrightarrow> (\<exists>r. file_content env pat i = Inr r)"
      proof
        assume "is_file i"
        with p items i have "i \<in> file_entries L S" by (auto simp: file_entries_def)
        with retrievable show "\<exists>r. file_content env pat i = Inr r" by blast
      qed
    qed
    with items show "\<exists>items. L p = Inr items \<and> (\<forall>i \<in> set items. entry_ok env pat i)" by blast
  qed
  have "set (queue (initial path)) \<subseteq> reach L S"
    by (auto simp: initial_def S intro: reach.start)
  from loop_total [OF L tree ok this] obtain m where
    m: "loop env owner repo branch pat (initial path) = Some (Returns m)"
    and dm: "dom m = dom (code_files (initial path)) \<union>
               fst ` files_from env pat L (set (queue (initial path)))" by blast
  have "set (queue (initial path)) = S" by (simp add: initial_def S)
  with dm have "dom m = fst ` files_from env pat L S" by (simp add: initial_def)
  with files_from_paths [of env pat L S] file_paths_files_from [OF retrievable]
  have "dom m = file_paths L S" by blast
  with m disjoint show ?thesis by (auto simp: get_github_code_files_def)
qed

theorem key_set_is_file_paths_witness:
  "\<exists>m. get_github_code_files (fixture_env tree_table) ''octo'' ''demo'' ''main'' [] ''s3cret'' =
          Some (Returns m) \<and>
        dom m = {JStr ''a.txt'', JStr ''sub/b.txt''} \<and>
        dom m \<inter> {JStr [], JStr ''sub''} = {}"
proof -
  let ?L = "list_dir (fixture_env tree_table) ''octo'' ''demo'' ''main'' ''s3cret''"
  have S: "{JStr []} = {JStr (strip_slash [])}" by (simp add: strip_slash_def)
  have listings: "\<forall>p \<in> reach ?L {JStr []}. \<exists>items. ?L p = Inr items"
    by (simp add: tree_reach tree_list_root tree_list_sub)
  have entries: "\<forall>p \<in> reach ?L {JStr []}. \<forall>items. ?L p = Inr items \<longrightarrow>
        (\<forall>i \<in> set items. i ''type'' \<noteq> None \<and> (is_file i \<or> is_dir i \<longrightarrow> i ''path'' \<noteq> None))"
    by (simp add: tree_reach tree_list_root tree_list_sub a_txt_def b_txt_def sub_dir_def)
  have retrievable: "\<forall>i \<in> file_entries ?L {JStr []}. \<exists>c. file_content (fixture_env tree_table) ''s3cret'' i = Inr (Some c)"
    by (simp add: tree_file_entries file_content_a file_content_b)
  have disjoint: "file_paths ?L {JStr []} \<inter> reach ?L {JStr []} = {}"
    by (simp add: tree_file_paths tree_reach)
  from key_set_is_file_paths [OF refl S tree_wf listings entries retrievable disjoint]
  show ?thesis by (simp add: tree_file_paths tree_reach)
qed

text \<open>
  C2, as the code has it. Whenever a run comes to a round whose listing request fails (the
  session raises a request exception, the response has a status 4xx or 5xx, or its body is
  not JSON), the call returns the empty dictionary, whatever the state has accumulated
  before. The status check is \<^verbatim>\<open>raise_for_status\<close>, which raises for 4xx and 5xx only.
\<close>

theorem failed_listing_returns_empty:
  assumes "(st, []) \<in> configs env owner repo branch path pat"
    and "queue st = p # rest"
    and "listing_fails env owner repo branch pat p"
  shows "get_github_code_files env owner repo branch path pat = Some (Returns Map.empty)"
proof -
  from listing_fails_Inl [OF assms(3)] obtain e
    where e: "list_dir env owner repo branch pat p = Inl e" "handlers e = Returns Map.empty"
    by blast
  then have "iteration env owner repo branch pat p (st\<lparr>queue := rest\<rparr>) = Inl e"
    by (simp add: iteration_def)
  from loop_Cons_Inl [OF assms(2) this] e(2)
  have "loop env owner repo branch pat st = Some (Returns Map.empty)" by simp
  with configs_continue [OF assms(1)] show ?thesis by (simp add: continue_def)
qed

theorem failed_listing_returns_empty_witness:
  "(\<lparr>queue = [JStr ''sub''], code_files = [JStr ''a.txt'' \<mapsto> ''hello'']\<rparr>, []) \<in>
     configs (fixture_env broken_table) ''octo'' ''demo'' ''main'' [] ''s3cret'' \<and>
   listing_fails (fixture_env broken_table) ''octo'' ''demo'' ''main'' ''s3cret'' (JStr ''sub'') \<and>
   get_github_code_files (fixture_env broken_table) ''octo'' ''demo'' ''main'' [] ''s3cret'' =
     Some (Returns Map.empty)"
  using failed_listing_returns_empty [OF broken_config _ broken_sub_fails, of "[]"]
    broken_config broken_sub_fails by simp

text \<open>
  C2, as it is stated, fails for a status that is neither 2xx nor 4xx/5xx: the listing
  response for the root has status 300 and a JSON list as its body, and the call returns
  the file of that list.
\<close>

theorem non_2xx_listing_counterexample:
  "session_get (fixture_env status300_table) (contents_url ''octo'' ''demo'' ''main'' (JStr []))
     (headers ''s3cret'') = Inr \<lparr>status_code = 300, text_str = [], json = Array [a_txt]\<rparr> \<and>
   get_github_code_files (fixture_env status300_table) ''octo'' ''demo'' ''main'' [] ''s3cret'' =
     Some (Returns [JStr ''a.txt'' \<mapsto> ''hello'']) \<and>
   get_github_code_files (fixture_env status300_table) ''octo'' ''demo'' ''main'' [] ''s3cret'' \<noteq>
     Some (Returns Map.empty)"
proof -
  let ?env = "fixture_env status300_table"
  let ?st = "\<lparr>queue = [], code_files = [JStr ''a.txt'' \<mapsto> ''hello'']\<rparr>"
  have r: "session_get ?env (contents_url ''octo'' ''demo'' ''main'' (JStr [])) (headers ''s3cret'') =
      Inr \<lparr>status_code = 300, text_str = [], json = Array [a_txt]\<rparr>"
    by (simp add: contents_url_root fixture_env_def serve_def headers_def status300_table_def
        multiple_choices_def)
  have "iteration ?env ''octo'' ''demo'' ''main'' ''s3cret'' (JStr []) ((initial [])\<lparr>queue := []\<rparr>) =
          Inr ?st"
    by (simp add: iteration_def status300_list_root process_item_a initial_def)
  then have "loop ?env ''octo'' ''demo'' ''main'' ''s3cret'' (initial []) =
      loop ?env ''octo'' ''demo'' ''main'' ''s3cret'' ?st"
    by (intro loop_Cons_Inr) (simp_all add: initial_def strip_slash_def)
  also have "\<dots> = Some (Returns (code_files ?st))"
    by (rule loop_Nil) simp
  finally have g: "get_github_code_files ?env ''octo'' ''demo'' ''main'' [] ''s3cret'' =
      Some (Returns [JStr ''a.txt'' \<mapsto> ''hello''])"
    by (simp add: get_github_code_files_def)
  have "[JStr ''a.txt'' \<mapsto> ''hello''] \<noteq> (Map.empty :: jval \<rightharpoonup> string)"
    by (metis map_upd_nonempty)
  with r g show ?thesis by simp
qed

text \<open>
  C3 fails on the code. The root listing starts with a file entry whose content cannot be
  retrieved: no download URL, inline content \<open>a\<close> (no base64 text), and no key \<open>encoding\<close>.
  The entry is not skipped: the \<^verbatim>\<open>elif\<close> condition raises \<^verbatim>\<open>KeyError\<close>, the siblings
  \<open>a.txt\<close> and \<open>sub\<close> are never visited, and the call ends with the exception.
\<close>

theorem unretrievable_entry_aborts_run:
  "\<not> has_download_url no_enc \<and> no_enc ''content'' = Some (JStr ''a'') \<and>
   no_enc ''encoding'' = None \<and>
   get_github_code_files (fixture_env no_enc_first_table) ''octo'' ''demo'' ''main'' [] ''s3cret'' =
     Some (Raises (KeyError ''encoding''))"
proof -
  let ?env = "fixture_env no_enc_first_table"
  have "iteration ?env ''octo'' ''demo'' ''main'' ''s3cret'' (JStr []) ((initial [])\<lparr>queue := []\<rparr>) =
          Inl (KeyError ''encoding'')"
    by (simp add: iteration_def no_enc_first_list_root process_item_no_enc)
  then have "loop ?env ''octo'' ''demo'' ''main'' ''s3cret'' (initial []) =
      Some (handlers (KeyError ''encoding''))"
    by (intro loop_Cons_Inl) (simp_all add: initial_def strip_slash_def)
  then show ?thesis
    by (simp add: get_github_code_files_def handlers_KeyError no_enc_def has_download_url_def
        contains_def)
qed

text \<open>
  C4. For a file entry with a path, the stored value follows two tiers. With a non-empty
  download URL whose request (sent with the authorization header alone) answers without an
  error status, the text of that response is stored as it is. Without a non-empty download
  URL, non-empty inline content tagged \<open>base64\<close> is decoded, read as UTF-8 and stored. And
  with a non-empty download URL the content chain does not depend on the inline content or
  its tag at all.
\<close>

theorem content_priority:
  assumes "i ''type'' = Some (JStr ''file'')" and "i ''path'' = Some fp"
  shows "(\<forall>u r. i ''download_url'' = Some (JStr u) \<and> u \<noteq> [] \<and>
            session_get env u [(''Authorization'', ''token '' @ pat)] = Inr r \<and>
            \<not> (400 \<le> status_code r \<and> status_code r < 600) \<longrightarrow>
            process_item env pat st i =
              Inr (st\<lparr>code_files := (code_files st)(fp \<mapsto> text_str r)\<rparr>)) \<and>
         (\<forall>c bytes s. \<not> has_download_url i \<and> i ''content'' = Some (JStr c) \<and> c \<noteq> [] \<and>
            i ''encoding'' = Some (JStr ''base64'') \<and>
            b64decode env c = Inr bytes \<and> utf8_decode env bytes = Inr s \<longrightarrow>
            process_item env pat st i = Inr (st\<lparr>code_files := (code_files st)(fp \<mapsto> s)\<rparr>)) \<and>
         (\<forall>x y. has_download_url i \<longrightarrow>
            file_content env pat (i(''content'' := x, ''encoding'' := y)) =
            file_content env pat i)"
proof (intro conjI allI impI)
  fix u r
  assume a: "i ''download_url'' = Some (JStr u) \<and> u \<noteq> [] \<and>
            session_get env u [(''Authorization'', ''token '' @ pat)] = Inr r \<and>
            \<not> (400 \<le> status_code r \<and> status_code r < 600)"
  then have "fetch_download env pat u = Inr (text_str r)"
    by (simp add: fetch_download_def raise_for_status_def)
  with a file_content_url [of i u env pat]
  have "file_content env pat i = Inr (Some (text_str r))" by simp
  from process_item_file [OF assms this, of st]
  show "process_item env pat st i = Inr (st\<lparr>code_files := (code_files st)(fp \<mapsto> text_str r)\<rparr>)"
    by simp
next
  fix c bytes s
  assume a: "\<not> has_download_url i \<and> i ''content'' = Some (JStr c) \<and> c \<noteq> [] \<and>
            i ''encoding'' = Some (JStr ''base64'') \<and>
            b64decode env c = Inr bytes \<and> utf8_decode env bytes = Inr s"
  then have "file_content env pat i = Inr (Some s)"
    by (intro file_content_inline [of i c env bytes s]) simp_all
  from process_item_file [OF assms this, of st]
  show "process_item env pat st i = Inr (st\<lparr>code_files := (code_files st)(fp \<mapsto> s)\<rparr>)"
    by simp
next
  fix x y
  assume "has_download_url i"
  then show "file_content env pat (i(''content'' := x, ''encoding'' := y)) = file_content env pat i"
    by (rule file_content_ignores_inline)
qed

theorem content_priority_witness:
  "process_item (fixture_env tree_table) ''s3cret'' \<lparr>queue = [], code_files = Map.empty\<rparr> b_txt =
     Inr \<lparr>queue = [], code_files = [JStr ''sub/b.txt'' \<mapsto> ''world'']\<rparr> \<and>
   process_item (fixture_env tree_table) ''s3cret'' \<lparr>queue = [], code_files = Map.empty\<rparr> a_txt =
     Inr \<lparr>queue = [], code_files = [JStr ''a.txt'' \<mapsto> ''hello'']\<rparr>"
proof
  let ?st = "\<lparr>queue = [], code_files = Map.empty\<rparr>"
  have b: "b_txt ''type'' = Some (JStr ''file'')" "b_txt ''path'' = Some (JStr ''sub/b.txt'')"
    by (simp_all add: b_txt_def)
  have "b_txt ''download_url'' = Some (JStr b_url) \<and> b_url \<noteq> [] \<and>
        session_get (fixture_env tree_table) b_url [(''Authorization'', ''token '' @ ''s3cret'')] =
          Inr (ok_text ''world'') \<and>
        \<not> (400 \<le> status_code (ok_text ''world'') \<and> status_code (ok_text ''world'') < 600)"
    by (simp add: b_txt_def b_url_def fixture_env_def serve_def tree_table_def root_url_def
        sub_url_def ok_text_def)
  with content_priority [OF b, of "fixture_env tree_table" "''s3cret''" ?st,
      THEN conjunct1, rule_format, of b_url "ok_text ''world''"]
  show "process_item (fixture_env tree_table) ''s3cret'' ?st b_txt =
     Inr \<lparr>queue = [], code_files = [JStr ''sub/b.txt'' \<mapsto> ''world'']\<rparr>"
    by (simp add: ok_text_def)
next
  let ?st = "\<lparr>queue = [], code_files = Map.empty\<rparr>"
  have a: "a_txt ''type'' = Some (JStr ''file'')" "a_txt ''path'' = Some (JStr ''a.txt'')"
    by (simp_all add: a_txt_def)
  have "\<not> has_download_url a_txt \<and> a_txt ''content'' = Some (JStr ''aGVsbG8='') \<and>
        ''aGVsbG8='' \<noteq> [] \<and> a_txt ''encoding'' = Some (JStr ''base64'') \<and>
        b64decode (fixture_env tree_table) ''aGVsbG8='' = Inr ''hello'' \<and>
        utf8_decode (fixture_env tree_table) ''hello'' = Inr ''hello''"
    by (simp add: a_txt_def has_download_url_def contains_def fixture_env_def
        fixture_b64decode_def)
  with content_priority [OF a, of "fixture_env tree_table" "''s3cret''" ?st,
      THEN conjunct2, THEN conjunct1, rule_format, of "''aGVsbG8=''" "''hello''" "''hello''"]
  show "process_item (fixture_env tree_table) ''s3cret'' ?st a_txt =
     Inr \<lparr>queue = [], code_files = [JStr ''a.txt'' \<mapsto> ''hello'']\<rparr>"
    by simp
qed

text \<open>
  C5. When the listing request for the starting path answers with a single object that
  is a file entry, the object is handled as a list of one entry: the call returns the
  dictionary whose only key is the path of that entry, with the retrieved text (and the
  empty dictionary when the entry's text cannot be retrieved).
\<close>

theorem single_file_start:
  assumes resp: "session_get env (contents_url owner repo branch (JStr (strip_slash path)))
                   (headers pat) = Inr r"
    and status: "\<not> (400 \<le> status_code r \<and> status_code r < 600)"
    and single: "json r = Object i"
    and isfile: "i ''type'' = Some (JStr ''file'')" and fp: "i ''path'' = Some fp"
    and content: "file_content env pat i = Inr content"
  shows "get_github_code_files env owner repo branch path pat =
           Some (Returns (case content of None \<Rightarrow> Map.empty | Some c \<Rightarrow> [fp \<mapsto> c]))"
proof -
  let ?st = "case content of None \<Rightarrow> \<lparr>queue = [], code_files = Map.empty\<rparr>
             | Some c \<Rightarrow> \<lparr>queue = [], code_files = [fp \<mapsto> c]\<rparr>"
  have l: "list_dir env owner repo branch pat (JStr (strip_slash path)) = Inr [i]"
    using resp status single by (simp add: list_dir_def raise_for_status_def)
  have "iteration env owner repo branch pat (JStr (strip_slash path))
          ((initial path)\<lparr>queue := []\<rparr>) = Inr ?st"
    using process_item_file [OF isfile fp content, of "\<lparr>queue = [], code_files = Map.empty\<rparr>"]
    by (simp add: iteration_def l initial_def split: option.splits)
  then have "loop env owner repo branch pat (initial path) = loop env owner repo branch pat ?st"
    by (intro loop_Cons_Inr) (simp_all add: initial_def)
  also have "\<dots> = Some (Returns (code_files ?st))"
    by (rule loop_Nil) (simp split: option.splits)
  finally show ?thesis
    by (simp add: get_github_code_files_def split: option.splits)
qed

theorem single_file_start_witness:
  "get_github_code_files (fixture_env single_table) ''octo'' ''demo'' ''main'' ''/a.txt'' ''s3cret'' =
     Some (Returns [JStr ''a.txt'' \<mapsto> ''hello''])"
proof -
  have resp: "session_get (fixture_env single_table)
      (contents_url ''octo'' ''demo'' ''main'' (JStr (strip_slash ''/a.txt''))) (headers ''s3cret'') =
      Inr (ok_json (Object a_txt))"
    by (simp add: strip_slash_a contents_url_a fixture_env_def serve_def headers_def single_table_def)
  have status: "\<not> (400 \<le> status_code (ok_json (Object a_txt)) \<and>
                   status_code (ok_json (Object a_txt)) < 600)"
    by (simp add: ok_json_def)
  have single: "json (ok_json (Object a_txt)) = Object a_txt" by (simp add: ok_json_def)
  have isfile: "a_txt ''type'' = Some (JStr ''file'')" by (simp add: a_txt_def)
  have fp: "a_txt ''path'' = Some (JStr ''a.txt'')" by (simp add: a_txt_def)
  from single_file_start [OF resp status single isfile fp file_content_a]
  show ?thesis by simp
qed

text \<open>
  C6. The queue starts with the normalized starting path; after that, in every pass of the
  \<^verbatim>\<open>for\<close> body of every run, the paths appended to the queue were reported as directories
  by the listing of a path of this run, and every key whose value the pass sets, as well as
  every key present afterwards, was reported as a file by such a listing.
\<close>

theorem enqueued_dirs_inserted_files:
  assumes cfg: "(st, i # todo) \<in> configs env owner repo branch path pat"
    and step: "process_item env pat st i = Inr st'"
    and L: "L = list_dir env owner repo branch pat" and S: "S = {JStr (strip_slash path)}"
  shows "(\<exists>new. queue st' = queue st @ new \<and> (\<forall>q \<in> set new. reported L S ''dir'' q)) \<and>
         (\<forall>k. code_files st' k \<noteq> code_files st k \<longrightarrow> reported L S ''file'' k) \<and>
         (\<forall>k \<in> dom (code_files st'). reported L S ''file'' k)"
proof (intro conjI)
  from configs_invariant [OF cfg L S] obtain p items
    where p: "p \<in> reach L S" and items: "L p = Inr items" and i: "i \<in> set items"
      and old: "\<forall>k c. code_files st k = Some c \<longrightarrow> (k, c) \<in> files_from env pat L S"
    by auto
  have "\<forall>q \<in> set (dir_paths [i]). reported L S ''dir'' q"
  proof
    fix q assume "q \<in> set (dir_paths [i])"
    then have d: "is_dir i" and q: "q = the (i ''path'')"
      by (auto simp: dir_paths_def split: if_splits)
    from process_item_dir_path [OF step d] q have "i ''path'' = Some q" by auto
    with d p items i show "reported L S ''dir'' q"
      by (auto simp: reported_def is_dir_def)
  qed
  with process_item_queue [OF step]
  show "\<exists>new. queue st' = queue st @ new \<and> (\<forall>q \<in> set new. reported L S ''dir'' q)"
    by blast
  have new: "(st', todo) \<in> configs env owner repo branch path pat"
    by (rule configs.entry [OF cfg step])
  from configs_invariant [OF new L S]
  have vals: "\<forall>k c. code_files st' k = Some c \<longrightarrow> (k, c) \<in> files_from env pat L S" by blast
  then show "\<forall>k \<in> dom (code_files st'). reported L S ''file'' k"
    by (auto intro: files_from_reported)
  show "\<forall>k. code_files st' k \<noteq> code_files st k \<longrightarrow> reported L S ''file'' k"
  proof (intro allI impI)
    fix k assume ne: "code_files st' k \<noteq> code_files st k"
    show "reported L S ''file'' k"
    proof (cases "code_files st' k")
      case None
      with ne obtain c where "code_files st k = Some c" by (cases "code_files st k") auto
      with process_item_dom [OF step] have "k \<in> dom (code_files st')" by auto
      with None show ?thesis by auto
    next
      case (Some c)
      with vals show ?thesis by (auto intro: files_from_reported)
    qed
  qed
qed

theorem enqueued_dirs_inserted_files_witness:
  "(\<lparr>queue = [], code_files = [JStr ''a.txt'' \<mapsto> ''hello'']\<rparr>, [sub_dir]) \<in>
     configs (fixture_env tree_table) ''octo'' ''demo'' ''main'' [] ''s3cret'' \<and>
   process_item (fixture_env tree_table) ''s3cret''
     \<lparr>queue = [], code_files = [JStr ''a.txt'' \<mapsto> ''hello'']\<rparr> sub_dir =
     Inr \<lparr>queue = [JStr ''sub''], code_files = [JStr ''a.txt'' \<mapsto> ''hello'']\<rparr> \<and>
   reported (list_dir (fixture_env tree_table) ''octo'' ''demo'' ''main'' ''s3cret'') {JStr []}
     ''dir'' (JStr ''sub'') \<and>
   reported (list_dir (fixture_env tree_table) ''octo'' ''demo'' ''main'' ''s3cret'') {JStr []}
     ''file'' (JStr ''a.txt'')"
proof -
  let ?L = "list_dir (fixture_env tree_table) ''octo'' ''demo'' ''main'' ''s3cret''"
  let ?st = "\<lparr>queue = [], code_files = [JStr ''a.txt'' \<mapsto> ''hello'']\<rparr>"
  let ?st' = "\<lparr>queue = [JStr ''sub''], code_files = [JStr ''a.txt'' \<mapsto> ''hello'']\<rparr>"
  have step: "process_item (fixture_env tree_table) ''s3cret'' ?st sub_dir = Inr ?st'"
    by (simp add: process_item_sub)
  have S: "{JStr []} = {JStr (strip_slash [])}" by (simp add: strip_slash_def)
  note inst = enqueued_dirs_inserted_files [OF tree_config step refl S]
  from inst obtain new where "queue ?st' = queue ?st @ new"
    and "\<forall>q \<in> set new. reported ?L {JStr []} ''dir'' q" by blast
  then have "reported ?L {JStr []} ''dir'' (JStr ''sub'')" by auto
  moreover from inst have "\<forall>k \<in> dom (code_files ?st'). reported ?L {JStr []} ''file'' k"
    by blast
  then have "reported ?L {JStr []} ''file'' (JStr ''a.txt'')" by auto
  ultimately show ?thesis using tree_config step by simp
qed

text \<open>
  C7. The fixed tree: the listing of the root has the file \<open>a.txt\<close>, whose text "hello" comes
  only as inline base64 content, and the directory \<open>sub\<close>; the listing of \<open>sub\<close> has the file
  \<open>sub/b.txt\<close>, whose download URL answers "world". The call returns exactly the dictionary
  with these two files, whichever of the two root entries is listed first.
\<close>

theorem fixed_tree_result:
  assumes path: "strip_slash path = []"
    and root: "list_dir env owner repo branch pat (JStr []) = Inr items"
    and items: "items = [a, d] \<or> items = [d, a]"
    and a: "a ''type'' = Some (JStr ''file'')" "a ''path'' = Some (JStr ''a.txt'')"
      "\<not> has_download_url a" "a ''content'' = Some (JStr c)" "c \<noteq> []"
      "a ''encoding'' = Some (JStr ''base64'')"
      "b64decode env c = Inr bytes" "utf8_decode env bytes = Inr ''hello''"
    and d: "d ''type'' = Some (JStr ''dir'')" "d ''path'' = Some (JStr ''sub'')"
    and sub: "list_dir env owner repo branch pat (JStr ''sub'') = Inr [b]"
    and b: "b ''type'' = Some (JStr ''file'')" "b ''path'' = Some (JStr ''sub/b.txt'')"
      "b ''download_url'' = Some (JStr u)" "u \<noteq> []" "fetch_download env pat u = Inr ''world''"
  shows "get_github_code_files env owner repo branch path pat =
           Some (Returns [JStr ''a.txt'' \<mapsto> ''hello'', JStr ''sub/b.txt'' \<mapsto> ''world''])"
proof -
  let ?st1 = "\<lparr>queue = [JStr ''sub''], code_files = [JStr ''a.txt'' \<mapsto> ''hello'']\<rparr>"
  let ?st2 = "\<lparr>queue = [], code_files = [JStr ''a.txt'' \<mapsto> ''hello'', JStr ''sub/b.txt'' \<mapsto> ''world'']\<rparr>"
  have fa: "file_content env pat a = Inr (Some ''hello'')"
    by (rule file_content_inline [OF a(3-8)])
  have fb: "file_content env pat b = Inr (Some ''world'')"
    using file_content_url [of b u env pat] b(3,4,5) by simp
  have pa: "process_item env pat st a = Inr (st\<lparr>code_files := (code_files st)(JStr ''a.txt'' \<mapsto> ''hello'')\<rparr>)" for st
    using process_item_file [OF a(1,2) fa, of st] by simp
  have pd: "process_item env pat st d = Inr (st\<lparr>queue := queue st @ [JStr ''sub'']\<rparr>)" for st
    by (rule process_item_dir [OF d])
  have pb: "process_item env pat st b = Inr (st\<lparr>code_files := (code_files st)(JStr ''sub/b.txt'' \<mapsto> ''world'')\<rparr>)" for st
    using process_item_file [OF b(1,2) fb, of st] by simp
  have "process_items env pat \<lparr>queue = [], code_files = Map.empty\<rparr> items = Inr ?st1"
    using items by (auto simp: pa pd)
  then have 1: "iteration env owner repo branch pat (JStr []) ((initial path)\<lparr>queue := []\<rparr>) = Inr ?st1"
    by (simp add: iteration_def root initial_def)
  have 2: "iteration env owner repo branch pat (JStr ''sub'') (?st1\<lparr>queue := []\<rparr>) = Inr ?st2"
    by (simp add: iteration_def sub pb)
  have "loop env owner repo branch pat (initial path) = loop env owner repo branch pat ?st1"
    by (rule loop_Cons_Inr [OF _ 1]) (simp add: initial_def path)
  also have "\<dots> = loop env owner repo branch pat ?st2"
    by (rule loop_Cons_Inr [OF _ 2]) simp
  also have "\<dots> = Some (Returns (code_files ?st2))"
    by (rule loop_Nil) simp
  finally show ?thesis by (simp add: get_github_code_files_def)
qed

theorem fixed_tree_result_witness:
  "get_github_code_files (fixture_env tree_table) ''octo'' ''demo'' ''main'' [] ''s3cret'' =
     Some (Returns [JStr ''a.txt'' \<mapsto> ''hello'', JStr ''sub/b.txt'' \<mapsto> ''world''])"
proof (rule fixed_tree_result [where a = a_txt and d = sub_dir and b = b_txt
      and c = "''aGVsbG8=''" and bytes = "''hello''" and u = b_url and items = "[a_txt, sub_dir]"])
  show "strip_slash [] = []" by (simp add: strip_slash_def)
  show "list_dir (fixture_env tree_table) ''octo'' ''demo'' ''main'' ''s3cret'' (JStr []) = Inr [a_txt, sub_dir]"
    by (rule tree_list_root)
  show "[a_txt, sub_dir] = [a_txt, sub_dir] \<or> [a_txt, sub_dir] = [sub_dir, a_txt]" by simp
  show "a_txt ''type'' = Some (JStr ''file'')" by (simp add: a_txt_def)
  show "a_txt ''path'' = Some (JStr ''a.txt'')" by (simp add: a_txt_def)
  show "\<not> has_download_url a_txt" by (simp add: a_txt_def has_download_url_def contains_def)
  show "a_txt ''content'' = Some (JStr ''aGVsbG8='')" by (simp add: a_txt_def)
  show "''aGVsbG8='' \<noteq> []" by simp
  show "a_txt ''encoding'' = Some (JStr ''base64'')" by (simp add: a_txt_def)
  show "b64decode (fixture_env tree_table) ''aGVsbG8='' = Inr ''hello''"
    by (simp add: fixture_env_def fixture_b64decode_def)
  show "utf8_decode (fixture_env tree_table) ''hello'' = Inr ''hello''"
    by (simp add: fixture_env_def)
  show "sub_dir ''type'' = Some (JStr ''dir'')" by (simp add: sub_dir_def)
  show "sub_dir ''path'' = Some (JStr ''sub'')" by (simp add: sub_dir_def)
  show "list_dir (fixture_env tree_table) ''octo'' ''demo'' ''main'' ''s3cret'' (JStr ''sub'') = Inr [b_txt]"
    by (rule tree_list_sub)
  show "b_txt ''type'' = Some (JStr ''file'')" by (simp add: b_txt_def)
  show "b_txt ''path'' = Some (JStr ''sub/b.txt'')" by (simp add: b_txt_def)
  show "b_txt ''download_url'' = Some (JStr b_url)" by (simp add: b_txt_def)
  show "b_url \<noteq> []" by (simp add: b_url_def)
  show "fetch_download (fixture_env tree_table) ''s3cret'' b_url = Inr ''world''"
    by (simp add: fetch_download_def fixture_env_def serve_def tree_table_def raise_for_status_def
        ok_text_def root_url_def sub_url_def b_url_def)
qed

text \<open>
  C8. Two runs with the same arguments, the second against a server that answers every
  request that the first run can issue (the listing requests of the reached paths and the
  download requests of their file entries) as the first server does, with the same
  decoders, end alike: both return the same dictionary, or both raise the same exception,
  or neither ends.
\<close>

theorem same_responses_same_result:
  assumes "same_answers env env' owner repo branch path pat"
  shows "get_github_code_files env' owner repo branch path pat =
         get_github_code_files env owner repo branch path pat"
proof (cases "get_github_code_files env owner repo branch path pat")
  case None
  show ?thesis
  proof (cases "get_github_code_files env' owner repo branch path pat")
    case (Some y)
    from same_answers_back [OF assms Some] None show ?thesis by simp
  next
    case n: None
    with None show ?thesis by simp
  qed
next
  case (Some y)
  with same_answers_run [OF assms Some] show ?thesis by simp
qed

theorem same_responses_same_result_witness:
  "session_get (fixture_env tree_table_more) other_url [(''Authorization'', ''token s3cret'')] =
     Inr (ok_text ''x'') \<and>
   session_get (fixture_env tree_table) other_url [(''Authorization'', ''token s3cret'')] =
     Inr (no_body 404) \<and>
   get_github_code_files (fixture_env tree_table_more) ''octo'' ''demo'' ''main'' [] ''s3cret'' =
     get_github_code_files (fixture_env tree_table) ''octo'' ''demo'' ''main'' [] ''s3cret''"
proof (intro conjI)
  show "session_get (fixture_env tree_table_more) other_url [(''Authorization'', ''token s3cret'')] =
     Inr (ok_text ''x'')"
    by (simp add: fixture_env_def serve_def tree_table_more_def tree_table_def root_url_def
        sub_url_def b_url_def other_url_def)
  show "session_get (fixture_env tree_table) other_url [(''Authorization'', ''token s3cret'')] =
     Inr (no_body 404)"
    by (simp add: fixture_env_def serve_def tree_table_def root_url_def
        sub_url_def b_url_def other_url_def)
  show "get_github_code_files (fixture_env tree_table_more) ''octo'' ''demo'' ''main'' [] ''s3cret'' =
     get_github_code_files (fixture_env tree_table) ''octo'' ''demo'' ''main'' [] ''s3cret''"
    by (rule same_responses_same_result [OF tree_same_answers])
qed

text \<open>
  C9. When the \<^verbatim>\<open>for\<close> loop of a run comes to a file entry that has a path, no non-empty
  download URL, a non-empty \<open>content\<close> and no key \<open>encoding\<close>, the subscript
  \<^verbatim>\<open>item['encoding']\<close> raises \<^verbatim>\<open>KeyError\<close>; none of the three handlers catches it, and
  the call ends with that exception instead of a dictionary.
\<close>

theorem missing_encoding_raises:
  assumes "(st, i # todo) \<in> configs env owner repo branch path pat"
    and "i ''type'' = Some (JStr ''file'')" and "i ''path'' \<noteq> None"
    and "\<not> has_download_url i"
    and "contains i ''content''" and "truthy (the (i ''content''))"
    and "i ''encoding'' = None"
  shows "file_content env pat i = Inl (KeyError ''encoding'') \<and>
         handlers (KeyError ''encoding'') = Raises (KeyError ''encoding'') \<and>
         get_github_code_files env owner repo branch path pat =
           Some (Raises (KeyError ''encoding''))"
proof -
  have fc: "file_content env pat i = Inl (KeyError ''encoding'')"
    by (rule file_content_no_encoding [OF assms(4-7)])
  with assms(2,3) have "process_item env pat st i = Inl (KeyError ''encoding'')"
    by (auto simp: process_item_def getitem_def)
  then have "continue env owner repo branch pat st (i # todo) =
      Some (handlers (KeyError ''encoding''))"
    by (simp add: continue_def)
  with configs_continue [OF assms(1)] fc show ?thesis
    by (simp add: handlers_KeyError)
qed

theorem missing_encoding_raises_witness:
  "(\<lparr>queue = [], code_files = [JStr ''a.txt'' \<mapsto> ''hello'']\<rparr>, [no_enc, sub_dir]) \<in>
     configs (fixture_env no_enc_table) ''octo'' ''demo'' ''main'' [] ''s3cret'' \<and>
   get_github_code_files (fixture_env no_enc_table) ''octo'' ''demo'' ''main'' [] ''s3cret'' =
     Some (Raises (KeyError ''encoding''))"
proof -
  have "get_github_code_files (fixture_env no_enc_table) ''octo'' ''demo'' ''main'' [] ''s3cret'' =
     Some (Raises (KeyError ''encoding''))"
    using missing_encoding_raises [OF no_enc_config]
    by (simp add: no_enc_def has_download_url_def contains_def)
  with no_enc_config show ?thesis by simp
qed

text \<open>
  C10. A file entry has a non-empty download URL whose request fails, and valid inline
  base64 content besides. The loop body leaves the state as it is: the inline content is
  not decoded in place of the download. When no other file entry of the run has the same
  path, the path is not a key of the returned dictionary.
\<close>

theorem failed_download_no_fallback:
  assumes "i ''type'' = Some (JStr ''file'')" and "i ''path'' = Some fp"
    and "i ''download_url'' = Some (JStr u)" and "u \<noteq> []"
    and "download_fails env pat u"
    and "i ''content'' = Some (JStr c)" and "i ''encoding'' = Some (JStr ''base64'')"
    and "decode_content env c = Inr s"
    and "\<forall>j \<in> file_entries (list_dir env owner repo branch pat) {JStr (strip_slash path)}.
           j ''path'' = Some fp \<longrightarrow> j = i"
    and "get_github_code_files env owner repo branch path pat = Some (Returns m)"
  shows "process_item env pat st i = Inr st \<and> m fp = None"
proof
  have fc: "file_content env pat i = Inr None"
    using file_content_failed_download [of i u env pat] assms(3-5) by simp
  from process_item_file [OF assms(1,2) fc, of st]
  show "process_item env pat st i = Inr st" by simp
  show "m fp = None"
  proof (rule ccontr)
    assume "m fp \<noteq> None"
    then obtain c' where "m fp = Some c'" by blast
    from returned_values [OF assms(10) this]
    obtain j where "j \<in> file_entries (list_dir env owner repo branch pat) {JStr (strip_slash path)}"
      and "j ''path'' = Some fp" and "file_content env pat j = Inr (Some c')"
      by (auto simp: files_from_def stored_def file_entries_def)
    with assms(9) fc show False by auto
  qed
qed

theorem failed_download_no_fallback_witness:
  "download_fails (fixture_env dead_table) ''s3cret'' dead_url \<and>
   decode_content (fixture_env dead_table) ''aGVsbG8='' = Inr ''hello'' \<and>
   process_item (fixture_env dead_table) ''s3cret''
     \<lparr>queue = [], code_files = Map.empty\<rparr> d_txt = Inr \<lparr>queue = [], code_files = Map.empty\<rparr> \<and>
   get_github_code_files (fixture_env dead_table) ''octo'' ''demo'' ''main'' [] ''s3cret'' =
     Some (Returns [JStr ''a.txt'' \<mapsto> ''hello'']) \<and>
   [JStr ''a.txt'' \<mapsto> ''hello''] (JStr ''d.txt'') = None"
proof -
  let ?env = "fixture_env dead_table"
  have dec: "decode_content ?env ''aGVsbG8='' = Inr ''hello''"
    by (simp add: decode_content_def fixture_env_def fixture_b64decode_def)
  have uniq: "\<forall>j \<in> file_entries (list_dir ?env ''octo'' ''demo'' ''main'' ''s3cret'')
        {JStr (strip_slash [])}. j ''path'' = Some (JStr ''d.txt'') \<longrightarrow> j = d_txt"
    by (simp add: strip_slash_def dead_file_entries a_txt_def)
  have "process_item ?env ''s3cret'' \<lparr>queue = [], code_files = Map.empty\<rparr> d_txt =
          Inr \<lparr>queue = [], code_files = Map.empty\<rparr> \<and>
        [JStr ''a.txt'' \<mapsto> ''hello''] (JStr ''d.txt'') = None"
    by (rule failed_download_no_fallback [where i = d_txt and u = dead_url and c = "''aGVsbG8=''"
          and s = "''hello''" and path = "[]" and owner = "''octo''" and repo = "''demo''"
          and branch = "''main''", OF _ _ _ _ dead_download_fails _ _ dec uniq dead_result])
       (simp_all add: d_txt_def dead_url_def)
  with dead_download_fails dec dead_result show ?thesis by simp
qed

end
